theory Spec2Isabelle
  imports Main "HOL-Library.Multiset"
begin

section \<open>FRED data fetcher: a shallow embedding of \<open>src/fred_apis.py\<close>\<close>

text \<open>
  The module is one class, \<open>FREDDataFetcher\<close>. Its methods are embedded as HOL
  functions that pass the mutable parts of the program explicitly: the attribute
  \<open>self.api_key\<close>, the wall clock, the writes issued to the data directory and
  the log. Everything outside the module (the file system, the HTTP endpoint and the
  pandas routines it calls) is a field of an environment record, so every theorem holds
  for whatever those do within the stated contracts.

  Text is \<open>string\<close>; a \<open>char\<close> is read as the code point of the same number
  (U+0000 to U+00FF).
\<close>

subsection \<open>Text primitives of Python that the module uses\<close>

definition is_space :: "char \<Rightarrow> bool" where
  \<comment> \<open>\<open>str.isspace\<close>, which is also the class \<open>\s\<close> of \<open>re\<close> on \<open>str\<close> patterns.\<close>
  "is_space c \<longleftrightarrow>
     (let n = of_char c :: nat
      in (9 \<le> n \<and> n \<le> 13) \<or> (28 \<le> n \<and> n \<le> 32) \<or> n = 133 \<or> n = 160)"

definition strip :: "string \<Rightarrow> string" where
  \<comment> \<open>\<open>str.strip()\<close>: white space removed at both ends.\<close>
  "strip s = rev (dropWhile is_space (rev (dropWhile is_space s)))"

definition lower_char :: "char \<Rightarrow> char" where
  "lower_char c =
     (let n = of_char c :: nat
      in if (65 \<le> n \<and> n \<le> 90) \<or> (192 \<le> n \<and> n \<le> 214) \<or> (216 \<le> n \<and> n \<le> 222)
         then char_of (n + 32) else c)"

definition lower :: "string \<Rightarrow> string" where
  \<comment> \<open>\<open>str.lower()\<close>.\<close>
  "lower s = map lower_char s"

definition is_word :: "char \<Rightarrow> bool" where
  \<comment> \<open>The class \<open>\w\<close> of \<open>re\<close> on \<open>str\<close> patterns: alphanumeric, or the underscore.\<close>
  "is_word c \<longleftrightarrow>
     (let n = of_char c :: nat
      in (48 \<le> n \<and> n \<le> 57) \<or> (65 \<le> n \<and> n \<le> 90) \<or> n = 95 \<or> (97 \<le> n \<and> n \<le> 122)
         \<or> n = 170 \<or> n = 178 \<or> n = 179 \<or> n = 181 \<or> n = 185 \<or> n = 186
         \<or> (188 \<le> n \<and> n \<le> 190) \<or> (192 \<le> n \<and> n \<le> 214) \<or> (216 \<le> n \<and> n \<le> 246)
         \<or> 248 \<le> n)"

definition starts_with :: "string \<Rightarrow> string \<Rightarrow> bool" where
  "starts_with p s \<longleftrightarrow> take (length p) s = p"

text \<open>
  \<open>re.search(key + r':\s*(.+)', content)\<close>, as used for \<open>name\<close> and \<open>url\<close>:
  the group of the leftmost match, or \<open>None\<close>. At an occurrence of \<open>key:\<close> the
  greedy \<open>\s*\<close> takes the whole run of white space (line breaks included). When a
  character follows the run it is not white space, and the group runs from it to the
  end of its line. When the text ends with the run, \<open>\s*\<close> gives characters back
  until the group can start on one that is not a line feed: the group is then the last
  such character of the run. Otherwise there is no match at this occurrence and the
  search goes on to the right.
\<close>

definition line_group :: "string \<Rightarrow> string option" where
  "line_group after =
     (let ws = takeWhile is_space after; rest = dropWhile is_space after
      in if rest \<noteq> [] then Some (takeWhile (\<lambda>c. c \<noteq> CHR 0x0A) rest)
         else (case dropWhile (\<lambda>c. c = CHR 0x0A) (rev ws) of
                 [] \<Rightarrow> None
               | c # _ \<Rightarrow> Some [c]))"

fun search_line :: "string \<Rightarrow> string \<Rightarrow> string option" where
  "search_line key [] = None"
| "search_line key (c # cs) =
     (if starts_with (key @ '':'') (c # cs)
      then (case line_group (drop (length key + 1) (c # cs)) of
              Some g \<Rightarrow> Some g
            | None \<Rightarrow> search_line key cs)
      else search_line key cs)"

text \<open>
  \<open>re.search(key + r'[=:]([^&\s]+)', content)\<close>, as used for \<open>api_key\<close> and
  \<open>series_id\<close>: after \<open>key=\<close> or \<open>key:\<close> the group is the longest run of
  characters that are neither \<open>&\<close> nor white space, and it must not be empty.
\<close>

definition token_char :: "char \<Rightarrow> bool" where
  "token_char c \<longleftrightarrow> c \<noteq> CHR ''&'' \<and> \<not> is_space c"

definition token_group :: "string \<Rightarrow> string option" where
  "token_group after =
     (case after of
        [] \<Rightarrow> None
      | d # rest \<Rightarrow>
          if (d = CHR ''='' \<or> d = CHR '':'') \<and> takeWhile token_char rest \<noteq> []
          then Some (takeWhile token_char rest) else None)"

fun search_token :: "string \<Rightarrow> string \<Rightarrow> string option" where
  "search_token key [] = None"
| "search_token key (c # cs) =
     (if starts_with key (c # cs)
      then (case token_group (drop (length key) (c # cs)) of
              Some g \<Rightarrow> Some g
            | None \<Rightarrow> search_token key cs)
      else search_token key cs)"

subsection \<open>The series catalogue\<close>

definition series_mappings :: "(string \<times> string list) list" where
  \<comment> \<open>The dict literal of \<open>__init__\<close>; its keys are distinct.\<close>
  "series_mappings =
     [(''CPI data'', [''CPIAUCSL'', ''CPALTT01USM657N'']),
      (''GDP data'', [''GDP'', ''GDPC1'']),
      (''UNRATE data'', [''UNRATE'']),
      (''Interest Rate data'', [''INTDSRUSM193'', ''FEDFUNDS'', ''DGS10'']),
      (''Consumer Confidence data'', [''UMCSENT'']),
      (''Housing Starts data'', [''HOUST'']),
      (''Trade Balance data'', [''BOPGSTB'']),
      (''Current Account data'', [''NETEXP'']),
      (''Government Debt & Budget Deficit data'', [''GFDEGDQ188S'', ''FYFSGDA188S'']),
      (''PPI data'', [''PPIACO'']),
      (''PPI Gold Ore data'', [''PCU2122212122'']),
      (''Crude Oil data'', [''DCOILWTICO'']),
      (''S&P 500 data'', [''SP500'']),
      (''Dow Jones Industrial Average data'', [''DJIA'']),
      (''NASDAQ Composite data'', [''NASDAQCOM'']),
      (''Currency Conversions data'', [''DEXUSEU'', ''DEXJPUS'', ''DEXUSUK''])]"

definition get_corrected_series_ids :: "string \<Rightarrow> string list" where
  \<comment> \<open>\<open>self.series_mappings.get(indicator_name, [])\<close>\<close>
  "get_corrected_series_ids indicator_name =
     (case map_of series_mappings indicator_name of
        None \<Rightarrow> []
      | Some ids \<Rightarrow> ids)"

subsection \<open>Exceptions, the log and the state\<close>

datatype exn =
    RequestException string
  | ValueError string
  | KeyError string
  | IndexError string
  | OSError string

fun is_request_exception :: "exn \<Rightarrow> bool" where
  "is_request_exception (RequestException m) = True"
| "is_request_exception e = False"

datatype level = INFO | WARNING | ERROR

datatype msg =
    Parse_error string exn
  | Fetching string
  | No_observations string
  | Empty_dataset string
  | Fetched nat string
  | Fetch_error string exn
  | Unexpected_error string exn
  | Saved "string \<times> string"
  | Save_error "string \<times> string" exn
  | Dir_not_found string
  | Found_files nat
  | Processing string
  | No_series_id string
  | No_data string
  | Creating_combined
  | Completed nat

text \<open>
  A row of a cleaned \<open>DataFrame\<close>. The date is \<open>None\<close> for pandas' \<open>NaT\<close>; the
  value has the numeric type \<open>'v\<close>, so a row holds no missing value; the
  \<open>indicator\<close> column exists only in the combined dataset. Other columns of the
  response are carried along unchanged by every step and are left out.
\<close>

record 'v row =
  r_date :: "int option"
  r_value :: 'v
  r_series_id :: string
  r_fetched_at :: nat
  r_indicator :: "string option"

text \<open>
  A call of one of the writers \<open>to_csv\<close>, \<open>to_json\<close>, \<open>to_parquet\<close>: the path
  (\<open>self.data_dir\<close> and the file name joined by \<open>/\<close>), the format, the rows, and
  the exception the writer raised, if any.
\<close>

type_synonym path = "string \<times> string"

type_synonym 'v write_call = "path \<times> string \<times> 'v row list \<times> exn option"

record 'v world =
  w_api_key :: "string option"
  w_data_dir :: string
  w_clock :: nat
  w_writes :: "'v write_call list"
  w_log :: "(level \<times> msg) list"

definition logm :: "level \<Rightarrow> msg \<Rightarrow> 'v world \<Rightarrow> 'v world" where
  "logm l m s = s\<lparr>w_log := w_log s @ [(l, m)]\<rparr>"

definition now :: "'v world \<Rightarrow> nat \<times> 'v world" where
  \<comment> \<open>\<open>datetime.now()\<close>: every reading of the clock is later than the one before.\<close>
  "now s = (w_clock s, s\<lparr>w_clock := Suc (w_clock s)\<rparr>)"

definition sleep :: "nat \<Rightarrow> 'v world \<Rightarrow> 'v world" where
  \<comment> \<open>\<open>time.sleep(delay)\<close>\<close>
  "sleep delay s = s\<lparr>w_clock := w_clock s + delay\<rparr>"

definition truthy :: "string option \<Rightarrow> bool" where
  \<comment> \<open>Python's truth value of an optional string: neither \<open>None\<close> nor empty.\<close>
  "truthy k = (case k of None \<Rightarrow> False | Some t \<Rightarrow> t \<noteq> [])"

subsection \<open>What lies outside the module\<close>

datatype cell = Null | Str string

type_synonym raw_obs = "(string \<times> cell) list"

record request =
  q_series_id :: string
  q_api_key :: "string option"
  q_file_type :: string
  q_observation_start :: string
  q_observation_end :: string

record bruno_file =
  bf_path :: string
  bf_name :: string
  bf_stem :: string

text \<open>
  \<^item> \<open>e_read\<close>: \<open>open(file_path, 'r')\<close> and \<open>file.read()\<close>, the text or the exception;
  \<^item> \<open>e_glob\<close>: the \<open>*.bru\<close> files of a directory in enumeration order, \<open>None\<close>
    when the directory does not exist;
  \<^item> \<open>e_get\<close>: \<open>requests.get\<close>, \<open>raise_for_status\<close> and \<open>response.json()\<close> at a
    clock reading: an exception, or the decoded object, given by its \<open>observations\<close>
    field (\<open>None\<close> when the object has none), a list of records from column name to
    cell, as the upstream interface returns;
  \<^item> \<open>e_to_datetime\<close>: \<open>pd.to_datetime\<close> on a string cell, a date, \<open>NaT\<close> or an
    exception; \<open>e_to_numeric\<close>: \<open>pd.to_numeric(errors='coerce')\<close> on a string cell,
    \<open>None\<close> for \<open>NaN\<close>;
  \<^item> \<open>e_argsort\<close>: the index order \<open>sort_values\<close> computes from the date column with
    its default \<open>kind='quicksort'\<close>;
  \<^item> \<open>e_strftime\<close>: \<open>strftime("%Y-%m-%d")\<close> of a clock reading;
  \<^item> \<open>e_write\<close>: the exception a writer raises at a path, if any.
\<close>

record 'v env =
  e_read :: "string \<Rightarrow> exn + string"
  e_glob :: "string \<Rightarrow> bruno_file list option"
  e_get :: "nat \<Rightarrow> request \<Rightarrow> exn + raw_obs list option"
  e_to_datetime :: "string \<Rightarrow> exn + int option"
  e_to_numeric :: "string \<Rightarrow> 'v option"
  e_argsort :: "int option list \<Rightarrow> nat list"
  e_strftime :: "nat \<Rightarrow> string"
  e_write :: "path \<Rightarrow> string \<Rightarrow> exn option"

subsection \<open>\<open>parse_bruno_file\<close>\<close>

record config =
  c_name :: string
  c_url :: string
  c_series_id :: string
  c_api_key :: string
  c_params :: "(string \<times> string) list"

definition empty_config :: config where
  "empty_config = \<lparr>c_name = [], c_url = [], c_series_id = [], c_api_key = [], c_params = []\<rparr>"

text \<open>
  The body of the \<open>try\<close> block. Only opening and reading the file can raise: the
  searches and \<open>strip\<close> are total on text.
\<close>

definition parse_bruno_try :: "'v env \<Rightarrow> string \<Rightarrow> 'v world \<Rightarrow> exn + config \<times> 'v world" where
  "parse_bruno_try env file_path s =
     (case e_read env file_path of
        Inl e \<Rightarrow> Inl e
      | Inr content \<Rightarrow>
          let config = empty_config;
              config = (case search_line ''name'' content of
                          Some g \<Rightarrow> config\<lparr>c_name := strip g\<rparr> | None \<Rightarrow> config);
              config = (case search_line ''url'' content of
                          Some g \<Rightarrow> config\<lparr>c_url := strip g\<rparr> | None \<Rightarrow> config);
              api_key_match = search_token ''api_key'' content;
              config = (case api_key_match of
                          Some g \<Rightarrow> config\<lparr>c_api_key := strip g\<rparr> | None \<Rightarrow> config);
              s = (case api_key_match of
                     Some g \<Rightarrow> if \<not> truthy (w_api_key s)
                               then s\<lparr>w_api_key := Some (c_api_key config)\<rparr> else s
                   | None \<Rightarrow> s);
              config = (case search_token ''series_id'' content of
                          Some g \<Rightarrow> config\<lparr>c_series_id := strip g\<rparr> | None \<Rightarrow> config)
          in Inr (config, s))"

definition parse_bruno_file :: "'v env \<Rightarrow> string \<Rightarrow> 'v world \<Rightarrow> config \<times> 'v world" where
  \<comment> \<open>\<open>except Exception\<close>: logged, and the configuration built so far is returned.\<close>
  "parse_bruno_file env file_path s =
     (case parse_bruno_try env file_path s of
        Inr r \<Rightarrow> r
      | Inl e \<Rightarrow> (empty_config, logm ERROR (Parse_error file_path e) s))"

subsection \<open>\<open>fetch_series_data\<close>\<close>

definition df_empty :: "raw_obs list \<Rightarrow> bool" where
  \<comment> \<open>\<open>pd.DataFrame(observations).empty\<close>: no row, or no column.\<close>
  "df_empty obs \<longleftrightarrow> obs = [] \<or> (\<forall>r \<in> set obs. r = [])"

definition cell_of :: "string \<Rightarrow> raw_obs \<Rightarrow> cell" where
  \<comment> \<open>A record without the key holds a missing value in that column.\<close>
  "cell_of k r = (case map_of r k of None \<Rightarrow> Null | Some c \<Rightarrow> c)"

definition column :: "string \<Rightarrow> raw_obs list \<Rightarrow> exn + cell list" where
  \<comment> \<open>\<open>df[k]\<close>: a \<open>KeyError\<close> when no record has the key.\<close>
  "column k obs =
     (if \<exists>r \<in> set obs. k \<in> set (map fst r) then Inr (map (cell_of k) obs)
      else Inl (KeyError k))"

definition to_datetime_cell :: "'v env \<Rightarrow> cell \<Rightarrow> exn + int option" where
  \<comment> \<open>A missing value becomes \<open>NaT\<close>.\<close>
  "to_datetime_cell env c = (case c of Null \<Rightarrow> Inr None | Str t \<Rightarrow> e_to_datetime env t)"

definition to_numeric_cell :: "'v env \<Rightarrow> cell \<Rightarrow> 'v option" where
  "to_numeric_cell env c = (case c of Null \<Rightarrow> None | Str t \<Rightarrow> e_to_numeric env t)"

fun sequence :: "(exn + 'a) list \<Rightarrow> exn + 'a list" where
  \<comment> \<open>The first exception ends the conversion of a column.\<close>
  "sequence [] = Inr []"
| "sequence (Inl e # xs) = Inl e"
| "sequence (Inr x # xs) = (case sequence xs of Inl e \<Rightarrow> Inl e | Inr ys \<Rightarrow> Inr (x # ys))"

fun dropna :: "('d \<times> 'v option) list \<Rightarrow> ('d \<times> 'v) list" where
  \<comment> \<open>\<open>df.dropna(subset=['value'])\<close>\<close>
  "dropna [] = []"
| "dropna ((d, None) # xs) = dropna xs"
| "dropna ((d, Some v) # xs) = (d, v) # dropna xs"

definition take_rows :: "'a list \<Rightarrow> nat list \<Rightarrow> exn + 'a list" where
  \<comment> \<open>The rows at the given positions; a position out of range raises.\<close>
  "take_rows xs order =
     (if \<forall>i \<in> set order. i < length xs then Inr (map (\<lambda>i. xs ! i) order)
      else Inl (IndexError ''indices are out-of-bounds''))"

definition clean :: "'v env \<Rightarrow> raw_obs list \<Rightarrow> exn + (int option \<times> 'v) list" where
  \<comment> \<open>Lines 167 to 170: the date and value columns converted, missing values dropped, rows sorted.\<close>
  "clean env obs =
     (case column ''date'' obs of
        Inl e \<Rightarrow> Inl e
      | Inr date_cells \<Rightarrow>
          (case sequence (map (to_datetime_cell env) date_cells) of
             Inl e \<Rightarrow> Inl e
           | Inr dates \<Rightarrow>
               (case column ''value'' obs of
                  Inl e \<Rightarrow> Inl e
                | Inr value_cells \<Rightarrow>
                    let df = dropna (zip dates (map (to_numeric_cell env) value_cells))
                    in take_rows df (e_argsort env (map fst df)))))"

definition stamp :: "string \<Rightarrow> nat \<Rightarrow> int option \<times> 'v \<Rightarrow> 'v row" where
  "stamp series_id t dv =
     \<lparr>r_date = fst dv, r_value = snd dv, r_series_id = series_id, r_fetched_at = t,
      r_indicator = None\<rparr>"

definition send_request ::
  "'v env \<Rightarrow> string \<Rightarrow> string \<Rightarrow> string option \<Rightarrow> 'v world \<Rightarrow> (exn + raw_obs list option) \<times> 'v world" where
  \<comment> \<open>Lines 136 to 152: the default end date, the parameters, the request and its decoding.\<close>
  "send_request env series_id start_date end_date s =
     (let (end_date, s) = (if truthy end_date then (case end_date of Some d \<Rightarrow> d | None \<Rightarrow> [], s)
                           else (let (t, s) = now s in (e_strftime env t, s)));
          params = \<lparr>q_series_id = series_id, q_api_key = w_api_key s, q_file_type = ''json'',
                    q_observation_start = start_date, q_observation_end = end_date\<rparr>;
          s = logm INFO (Fetching series_id) s
      in (e_get env (w_clock s) params, s))"

definition fetch_series_data ::
  "'v env \<Rightarrow> string \<Rightarrow> string \<Rightarrow> string option \<Rightarrow> 'v world \<Rightarrow> 'v row list option \<times> 'v world" where
  "fetch_series_data env series_id start_date end_date s =
     (let (response, s) = send_request env series_id start_date end_date s
      in case response of
           Inl e \<Rightarrow>
             (None, logm ERROR (if is_request_exception e then Fetch_error series_id e
                                else Unexpected_error series_id e) s)
         | Inr None \<Rightarrow> (None, logm WARNING (No_observations series_id) s)
         | Inr (Some observations) \<Rightarrow>
             if df_empty observations then (None, logm WARNING (Empty_dataset series_id) s)
             else (case clean env observations of
                     Inl e \<Rightarrow> (None, logm ERROR (Unexpected_error series_id e) s)
                   | Inr df \<Rightarrow>
                       let (t, s) = now s;
                           df = map (stamp series_id t) df
                       in (Some df, logm INFO (Fetched (length df) series_id) s)))"

subsection \<open>\<open>save_data\<close>\<close>

definition call_writer ::
  "'v env \<Rightarrow> 'v row list \<Rightarrow> path \<Rightarrow> string \<Rightarrow> 'v world \<Rightarrow> (exn + unit) \<times> 'v world" where
  \<comment> \<open>\<open>data.to_csv(file_path, ...)\<close> and its two siblings: the call is recorded, and it may raise.\<close>
  "call_writer env data file_path format s =
     (let outcome = e_write env file_path format;
          s = s\<lparr>w_writes := w_writes s @ [(file_path, format, data, outcome)]\<rparr>
      in case outcome of Some e \<Rightarrow> (Inl e, s) | None \<Rightarrow> (Inr (), s))"

definition save_data_try ::
  "'v env \<Rightarrow> 'v row list \<Rightarrow> path \<Rightarrow> string \<Rightarrow> 'v world \<Rightarrow> (exn + unit) \<times> 'v world" where
  \<comment> \<open>The body of the \<open>try\<close> block.\<close>
  "save_data_try env data file_path format s =
     (let (r, s) =
            (if format = ''csv'' then call_writer env data file_path format s
             else if format = ''json'' then call_writer env data file_path format s
             else if format = ''parquet'' then call_writer env data file_path format s
             else (Inl (ValueError (''Unsupported format: '' @ format)), s))
      in case r of
           Inl e \<Rightarrow> (Inl e, s)
         | Inr u \<Rightarrow> (Inr (), logm INFO (Saved file_path) s))"

definition save_data ::
  "'v env \<Rightarrow> 'v row list \<Rightarrow> string \<Rightarrow> string \<Rightarrow> 'v world \<Rightarrow> (exn + unit) \<times> 'v world" where
  \<comment> \<open>What the caller sees: \<open>Inl\<close> for an exception that leaves the method, \<open>Inr ()\<close> for a
      normal return. \<open>except Exception\<close> logs the exception and falls through to the end.\<close>
  "save_data env data filename format s =
     (let file_path = (w_data_dir s, filename @ ''.'' @ format);
          (r, s) = save_data_try env data file_path format s
      in case r of
           Inl e \<Rightarrow> (Inr (), logm ERROR (Save_error file_path e) s)
         | Inr u \<Rightarrow> (Inr (), s))"

subsection \<open>\<open>fetch_all_indicators\<close>\<close>

definition clean_filename :: "string \<Rightarrow> string" where
  \<comment> \<open>\<open>re.sub(r'[^\w\-_]', '_', indicator_name.lower())\<close>\<close>
  "clean_filename indicator_name =
     map (\<lambda>c. if is_word c \<or> c = CHR ''-'' \<or> c = CHR ''_'' then c else CHR ''_'')
       (lower indicator_name)"

fun dict_set :: "('k \<times> 'a) list \<Rightarrow> 'k \<Rightarrow> 'a \<Rightarrow> ('k \<times> 'a) list" where
  \<comment> \<open>\<open>d[k] = v\<close> on a dict, which keeps insertion order: a known key keeps its place.\<close>
  "dict_set [] k v = [(k, v)]"
| "dict_set ((k', v') # kvs) k v =
     (if k' = k then (k, v) # kvs else (k', v') # dict_set kvs k v)"

fun fetch_each ::
  "'v env \<Rightarrow> string \<Rightarrow> nat \<Rightarrow> string list \<Rightarrow> 'v world \<Rightarrow> 'v row list list \<times> 'v world" where
  \<comment> \<open>The loop over \<open>series_ids\<close>: the datasets that are not \<open>None\<close>, in order.\<close>
  "fetch_each env start_date delay [] s = ([], s)"
| "fetch_each env start_date delay (series_id # series_ids) s =
     (let (df, s) = fetch_series_data env series_id start_date None s;
          s = sleep delay s;
          (indicator_data, s) = fetch_each env start_date delay series_ids s
      in (case df of None \<Rightarrow> indicator_data | Some d \<Rightarrow> d # indicator_data, s))"

definition resolve_series ::
  "'v env \<Rightarrow> bruno_file \<Rightarrow> 'v world \<Rightarrow> (string \<times> string list) \<times> 'v world" where
  \<comment> \<open>Lines 239 to 254: the indicator name of a file and its series identifiers, from the
      catalogue or else from the file; no identifier when the file is skipped.\<close>
  "resolve_series env bruno_file s =
     (let s = logm INFO (Processing (bf_name bruno_file)) s;
          (config, s) = parse_bruno_file env (bf_path bruno_file) s;
          indicator_name = (if c_name config \<noteq> [] then c_name config else bf_stem bruno_file);
          series_ids = get_corrected_series_ids indicator_name
      in if series_ids \<noteq> [] then ((indicator_name, series_ids), s)
         else if c_series_id config \<noteq> [] then ((indicator_name, [c_series_id config]), s)
         else ((indicator_name, []), logm WARNING (No_series_id indicator_name) s))"

definition process_bruno_file ::
  "'v env \<Rightarrow> string \<Rightarrow> string \<Rightarrow> nat \<Rightarrow> bruno_file
    \<Rightarrow> (string \<times> 'v row list) list \<times> 'v world \<Rightarrow> (string \<times> 'v row list) list \<times> 'v world" where
  \<comment> \<open>The body of the loop over \<open>bruno_files\<close>.\<close>
  "process_bruno_file env start_date format delay bruno_file acc =
     (let (all_data, s) = acc;
          ((indicator_name, series_ids), s) = resolve_series env bruno_file s
      in if series_ids = [] then (all_data, s)
         else
           let (indicator_data, s) = fetch_each env start_date delay series_ids s
           in if indicator_data \<noteq> []
              then
                let combined_df = (if length indicator_data = 1 then hd indicator_data
                                   else concat indicator_data);
                    all_data = dict_set all_data indicator_name combined_df;
                    (r, s) = save_data env combined_df (clean_filename indicator_name) format s
                in (all_data, s)
              else (all_data, logm WARNING (No_data indicator_name) s))"

definition tag_indicator :: "string \<times> 'v row list \<Rightarrow> 'v row list" where
  \<comment> \<open>\<open>df_copy['indicator'] = indicator\<close>\<close>
  "tag_indicator kv = map (\<lambda>r. r\<lparr>r_indicator := Some (fst kv)\<rparr>) (snd kv)"

definition fetch_all_indicators ::
  "'v env \<Rightarrow> string \<Rightarrow> string \<Rightarrow> string \<Rightarrow> nat \<Rightarrow> 'v world
    \<Rightarrow> (string \<times> 'v row list) list \<times> 'v world" where
  "fetch_all_indicators env bruno_dir start_date format delay s =
     (case e_glob env bruno_dir of
        None \<Rightarrow> ([], logm ERROR (Dir_not_found bruno_dir) s)
      | Some bruno_files \<Rightarrow>
          let s = logm INFO (Found_files (length bruno_files)) s;
              (all_data, s) =
                fold (process_bruno_file env start_date format delay) bruno_files ([], s);
              s = (if all_data \<noteq> []
                   then
                     let s = logm INFO Creating_combined s;
                         combined_data = map tag_indicator all_data
                     in if combined_data \<noteq> []
                        then snd (save_data env (concat combined_data)
                                    ''all_economic_indicators'' format s)
                        else s
                   else s)
          in (all_data, logm INFO (Completed (length all_data)) s))"

subsection \<open>The outcomes of the fetches of an indicator\<close>

fun fetch_results ::
  "'v env \<Rightarrow> string \<Rightarrow> nat \<Rightarrow> string list \<Rightarrow> 'v world \<Rightarrow> 'v row list option list" where
  \<comment> \<open>What each call of \<open>fetch_series_data\<close> in the loop over \<open>series_ids\<close> returns, in
      order, \<open>None\<close> included.\<close>
  "fetch_results env start_date delay [] s = []"
| "fetch_results env start_date delay (series_id # series_ids) s =
     fst (fetch_series_data env series_id start_date None s)
     # fetch_results env start_date delay series_ids
         (sleep delay (snd (fetch_series_data env series_id start_date None s)))"

fun present :: "'a option list \<Rightarrow> 'a list" where
  \<comment> \<open>The entries that are not \<open>None\<close>.\<close>
  "present [] = []"
| "present (None # rs) = present rs"
| "present (Some d # rs) = d # present rs"

subsection \<open>Sorting by date\<close>

definition date_le :: "int option \<Rightarrow> int option \<Rightarrow> bool" where
  \<comment> \<open>Ascending dates, \<open>NaT\<close> last (\<open>na_position='last'\<close>).\<close>
  "date_le a b = (case b of None \<Rightarrow> True | Some y \<Rightarrow> (case a of None \<Rightarrow> False | Some x \<Rightarrow> x \<le> y))"

definition argsort_ok :: "(int option list \<Rightarrow> nat list) \<Rightarrow> bool" where
  \<comment> \<open>What pandas promises of the default sort: the positions of the column, each once, in
      an order that makes the dates ascend. It does not promise the order of equal dates.\<close>
  "argsort_ok f \<longleftrightarrow>
     (\<forall>ds. mset (f ds) = mset [0..<length ds] \<and> sorted_wrt date_le (map (\<lambda>i. ds ! i) (f ds)))"

fun insert_idx :: "(nat \<Rightarrow> nat \<Rightarrow> bool) \<Rightarrow> nat \<Rightarrow> nat list \<Rightarrow> nat list" where
  "insert_idx precedes i [] = [i]"
| "insert_idx precedes i (j # js) =
     (if precedes i j then i # j # js else j # insert_idx precedes i js)"

definition argsort_stable :: "int option list \<Rightarrow> nat list" where
  \<comment> \<open>An insertion sort on the positions, which keeps equal dates in their order.\<close>
  "argsort_stable ds = foldr (insert_idx (\<lambda>i j. date_le (ds ! i) (ds ! j))) [0..<length ds] []"

subsection \<open>The sort that \<open>sort_values\<close> runs by default\<close>

text \<open>
  \<open>df.sort_values('date')\<close> takes the rows in the order of pandas' \<open>nargsort\<close>: the
  positions of the dates that are not \<open>NaT\<close>, ordered by numpy's \<open>argsort\<close> with
  \<open>kind='quicksort'\<close>, then the positions of \<open>NaT\<close>. numpy's quicksort is an
  introsort on the array of positions: a partition around the median of three while a
  part has more than \<open>small + 1\<close> elements (\<open>small\<close> is \<open>SMALL_QUICKSORT\<close> of
  numpy's source), an insertion sort below that, the larger part left on a stack, and a
  switch to heapsort when the depth limit of twice the binary logarithm of the length
  is used up. The array of positions is kept as a list of pairs of a date and its
  position, so that exchanging two positions exchanges the pairs. The heapsort is not
  part of this model: \<open>introsort\<close> is \<open>None\<close> where numpy would switch to it, and
  where its fuel, one step for each partition and each part taken from the stack, runs
  out.
\<close>

definition swap :: "nat \<Rightarrow> nat \<Rightarrow> 'a list \<Rightarrow> 'a list" where
  \<comment> \<open>\<open>INTP_SWAP\<close>\<close>
  "swap i j a = (a[i := a ! j])[j := a ! i]"

function scan_up :: "int \<Rightarrow> (int \<times> nat) list \<Rightarrow> nat \<Rightarrow> nat" where
  \<comment> \<open>\<open>do ++pi while (v[*pi] < vp)\<close>, entered after the first increment.\<close>
  "scan_up vp a pi = (if pi < length a \<and> fst (a ! pi) < vp then scan_up vp a (Suc pi) else pi)"
  by pat_completeness auto
termination
  by (relation "measure (\<lambda>(vp, a, pi). length a - pi)") auto

declare scan_up.simps [simp del]

fun scan_down :: "int \<Rightarrow> (int \<times> nat) list \<Rightarrow> nat \<Rightarrow> nat" where
  \<comment> \<open>\<open>do --pj while (vp < v[*pj])\<close>, entered after the first decrement.\<close>
  "scan_down vp a 0 = 0"
| "scan_down vp a (Suc pj) = (if vp < fst (a ! Suc pj) then scan_down vp a pj else Suc pj)"

function exchange ::
  "int \<Rightarrow> (int \<times> nat) list \<Rightarrow> nat \<Rightarrow> nat \<Rightarrow> (int \<times> nat) list \<times> nat" where
  \<comment> \<open>The loop of the partition: scan from both ends, stop when the scans cross, else swap.\<close>
  "exchange vp a pi pj =
     (if scan_down vp a (pj - 1) \<le> scan_up vp a (Suc pi) then (a, scan_up vp a (Suc pi))
      else exchange vp (swap (scan_up vp a (Suc pi)) (scan_down vp a (pj - 1)) a)
             (scan_up vp a (Suc pi)) (scan_down vp a (pj - 1)))"
  by pat_completeness auto
termination
proof (relation "measure (\<lambda>(vp, a, pi, pj). pj - pi)")
  show "wf (measure (\<lambda>(vp, a, pi, pj). pj - pi))" by simp
next
  fix vp :: int and a :: "(int \<times> nat) list" and pi pj :: nat
  assume crossed: "\<not> scan_down vp a (pj - 1) \<le> scan_up vp a (Suc pi)"
  have up: "k \<le> scan_up v b k" for v b k
  proof (induction v b k rule: scan_up.induct)
    case (1 v b k)
    show ?case
    proof (cases "k < length b \<and> fst (b ! k) < v")
      case True
      with 1 have "Suc k \<le> scan_up v b (Suc k)" by blast
      with True show ?thesis by (subst scan_up.simps) simp
    next
      case False
      then show ?thesis by (subst scan_up.simps) auto
    qed
  qed
  have down: "scan_down v b k \<le> k" for v b k
    by (induction k) auto
  from crossed up [of "Suc pi" vp a] down [of vp a "pj - 1"]
  show "((vp, swap (scan_up vp a (Suc pi)) (scan_down vp a (pj - 1)) a,
           scan_up vp a (Suc pi), scan_down vp a (pj - 1)), vp, a, pi, pj)
          \<in> measure (\<lambda>(vp, a, pi, pj). pj - pi)"
    by simp
qed

declare exchange.simps [simp del]

definition partition ::
  "(int \<times> nat) list \<Rightarrow> nat \<Rightarrow> nat \<Rightarrow> (int \<times> nat) list \<times> nat" where
  \<comment> \<open>Median of three, the pivot parked at \<open>pr - 1\<close>, the exchanges, the pivot put in place.\<close>
  "partition a pl pr =
     (let pm = pl + (pr - pl) div 2;
          a = (if fst (a ! pm) < fst (a ! pl) then swap pm pl a else a);
          a = (if fst (a ! pr) < fst (a ! pm) then swap pr pm a else a);
          a = (if fst (a ! pm) < fst (a ! pl) then swap pm pl a else a);
          vp = fst (a ! pm);
          a = swap pm (pr - 1) a;
          (a, pi) = exchange vp a pl (pr - 1)
      in (swap pi (pr - 1) a, pi))"

fun sift ::
  "int \<times> nat \<Rightarrow> (int \<times> nat) list \<Rightarrow> nat \<Rightarrow> nat \<Rightarrow> (int \<times> nat) list" where
  \<comment> \<open>The inner loop of the insertion sort: larger elements move up, then \<open>x\<close> is put down.\<close>
  "sift x a pl 0 = a[0 := x]"
| "sift x a pl (Suc pk) =
     (if pl < Suc pk \<and> fst x < fst (a ! pk) then sift x (a[Suc pk := a ! pk]) pl pk
      else a[Suc pk := x])"

definition insertion_sort :: "(int \<times> nat) list \<Rightarrow> nat \<Rightarrow> nat \<Rightarrow> (int \<times> nat) list" where
  "insertion_sort a pl pr = foldl (\<lambda>a pi. sift (a ! pi) a pl pi) a [Suc pl..<Suc pr]"

fun msb :: "nat \<Rightarrow> nat" where
  \<comment> \<open>\<open>npy_get_msb\<close>\<close>
  "msb n = (if n < 2 then 0 else Suc (msb (n div 2)))"

fun introsort ::
  "nat \<Rightarrow> nat \<Rightarrow> (int \<times> nat) list \<Rightarrow> nat \<Rightarrow> nat \<Rightarrow> int \<Rightarrow> (nat \<times> nat \<times> int) list
    \<Rightarrow> (int \<times> nat) list option" where
  "introsort small 0 a pl pr cdepth stack = None"
| "introsort small (Suc fuel) a pl pr cdepth stack =
     (if small < pr - pl
      then
        (let (a, pi) = partition a pl pr;
             cdepth = cdepth - 1
         in if pi - pl < pr - pi
            then introsort small fuel a pl (pi - 1) cdepth ((pi + 1, pr, cdepth) # stack)
            else introsort small fuel a (pi + 1) pr cdepth ((pl, pi - 1, cdepth) # stack))
      else
        (let a = insertion_sort a pl pr
         in case stack of
              [] \<Rightarrow> Some a
            | (pl, pr, cdepth) # stack \<Rightarrow>
                if cdepth < 0 then None else introsort small fuel a pl pr cdepth stack))"

definition aquicksort :: "nat \<Rightarrow> int list \<Rightarrow> nat list option" where
  "aquicksort small v =
     (let num = length v
      in if num = 0 then Some []
         else map_option (map snd)
                (introsort small (2 * num + 1) (zip v [0..<num]) 0 (num - 1)
                   (2 * int (msb num)) []))"

definition nargsort :: "(int list \<Rightarrow> nat list option) \<Rightarrow> int option list \<Rightarrow> nat list" where
  \<comment> \<open>pandas' \<open>nargsort\<close> with \<open>na_position='last'\<close>.\<close>
  "nargsort sorter items =
     (let idx = [0..<length items];
          non_nan_idx = filter (\<lambda>i. items ! i \<noteq> None) idx;
          nan_idx = filter (\<lambda>i. items ! i = None) idx;
          non_nans = concat (map (\<lambda>d. case d of None \<Rightarrow> [] | Some t \<Rightarrow> [t]) items)
      in (case sorter non_nans of
            None \<Rightarrow> []
          | Some order \<Rightarrow> map (\<lambda>j. non_nan_idx ! j) order) @ nan_idx)"

definition numpy_argsort :: "nat \<Rightarrow> int option list \<Rightarrow> nat list" where
  "numpy_argsort small = nargsort (aquicksort small)"

subsection \<open>The wording of the specification, for comparison\<close>

definition sanitized_spec :: "string \<Rightarrow> string" where
  \<comment> \<open>"non-word characters replaced with underscore, lower-cased"\<close>
  "sanitized_spec indicator_name =
     map (\<lambda>c. if is_word c then c else CHR ''_'') (lower indicator_name)"

definition sanitized_keeping_hyphen :: "string \<Rightarrow> string" where
  \<comment> \<open>The same, except that a hyphen stays.\<close>
  "sanitized_keeping_hyphen indicator_name =
     map (\<lambda>c. if c = CHR ''-'' then c else if is_word c then c else CHR ''_'')
       (lower indicator_name)"

subsection \<open>A concrete environment\<close>

text \<open>
  An environment to run the module in: request-definition files with their text, the
  observations the endpoint returns for a series identifier, and a sort. Values are
  written as digits, dates as digits and hyphens (the date is the number the digits
  spell); the empty date string is \<open>NaT\<close>, as in pandas.
\<close>

definition digit :: "char \<Rightarrow> bool" where
  "digit c \<longleftrightarrow> (let n = of_char c :: nat in 48 \<le> n \<and> n \<le> 57)"

definition digits_value :: "string \<Rightarrow> int" where
  "digits_value t = foldl (\<lambda>a c. 10 * a + (int (of_char c) - 48)) 0 t"

definition demo_to_numeric :: "string \<Rightarrow> int option" where
  "demo_to_numeric t = (if t \<noteq> [] \<and> list_all digit t then Some (digits_value t) else None)"

definition demo_to_datetime :: "string \<Rightarrow> exn + int option" where
  "demo_to_datetime t =
     (if t = [] then Inr None
      else if list_all (\<lambda>c. digit c \<or> c = CHR ''-'') t
      then Inr (Some (digits_value (filter digit t)))
      else Inl (ValueError ''Unknown datetime string format''))"

definition demo_env ::
  "(bruno_file \<times> string) list \<Rightarrow> (string \<times> raw_obs list) list
    \<Rightarrow> (int option list \<Rightarrow> nat list) \<Rightarrow> int env" where
  "demo_env files responses argsort =
     \<lparr>e_read = (\<lambda>p. case map_of (map (\<lambda>fc. (bf_path (fst fc), snd fc)) files) p of
                      None \<Rightarrow> Inl (OSError ''No such file or directory'')
                    | Some c \<Rightarrow> Inr c),
      e_glob = (\<lambda>d. if d = ''api'' then Some (map fst files) else None),
      e_get = (\<lambda>t q. case map_of responses (q_series_id q) of
                       None \<Rightarrow> Inl (RequestException ''400 Client Error'')
                     | Some obs \<Rightarrow> Inr (Some obs)),
      e_to_datetime = demo_to_datetime,
      e_to_numeric = demo_to_numeric,
      e_argsort = argsort,
      e_strftime = (\<lambda>t. ''2024-01-01''),
      e_write = (\<lambda>p f. None)\<rparr>"

definition demo_world :: "int world" where
  "demo_world =
     \<lparr>w_api_key = None, w_data_dir = ''data'', w_clock = 0, w_writes = [], w_log = []\<rparr>"

definition bru :: "string \<Rightarrow> bruno_file" where
  "bru stem = \<lparr>bf_path = ''api/'' @ stem @ ''.bru'', bf_name = stem @ ''.bru'', bf_stem = stem\<rparr>"

definition observation :: "string \<Rightarrow> string \<Rightarrow> raw_obs" where
  "observation d v = [(''date'', Str d), (''value'', Str v)]"

definition three_files :: "(bruno_file \<times> string) list" where
  \<comment> \<open>One file without a key, then two files with different keys.\<close>
  "three_files =
     [(bru ''a'', ''name: A''),
      (bru ''b'', ''url: u?api_key=k1&x=1''),
      (bru ''c'', ''api_key=k2'')]"

definition gdp_env :: "raw_obs list \<Rightarrow> (int option list \<Rightarrow> nat list) \<Rightarrow> int env" where
  \<comment> \<open>No files; the endpoint knows the series \<open>GDP\<close> only.\<close>
  "gdp_env observations argsort = demo_env [] [(''GDP'', observations)] argsort"

definition three_obs :: "raw_obs list" where
  \<comment> \<open>Out of order, and one value that is not a number.\<close>
  "three_obs =
     [observation ''2020-03-01'' ''3'',
      observation ''2020-01-01'' ''.'',
      observation ''2020-02-01'' ''2'']"

definition twenty_same_day :: "raw_obs list" where
  \<comment> \<open>Twenty observations of one day, numbered from 101 in the order of the response.\<close>
  "twenty_same_day =
     map (observation ''2020-01-01'')
       [''101'', ''102'', ''103'', ''104'', ''105'', ''106'', ''107'', ''108'', ''109'', ''110'',
        ''111'', ''112'', ''113'', ''114'', ''115'', ''116'', ''117'', ''118'', ''119'', ''120'']"

definition unrate_env :: "raw_obs list \<Rightarrow> int env" where
  \<comment> \<open>One file, for the indicator \<open>UNRATE data\<close> of the catalogue.\<close>
  "unrate_env observations =
     demo_env [(bru ''u'', ''name: UNRATE data'')] [(''UNRATE'', observations)] argsort_stable"

definition hyphen_env :: "int env" where
  \<comment> \<open>One file without a name: its stem \<open>x-y\<close> names the indicator.\<close>
  "hyphen_env =
     demo_env [(bru ''x-y'', ''series_id=ABC'')] [(''ABC'', [observation ''2020-01-01'' ''5''])]
       argsort_stable"

subsection \<open>The invariants of the loop over the files\<close>

definition run_inv ::
  "string \<Rightarrow> 'v world \<Rightarrow> (string \<times> 'v row list) list \<Rightarrow> 'v world
     \<Rightarrow> (string \<times> 'v row list) list \<Rightarrow> 'v write_call list \<Rightarrow> string set \<Rightarrow> bool" where
  \<comment> \<open>From \<open>s\<close> to \<open>s'\<close> the writer calls \<open>per\<close> were added, one file for each name in
      \<open>N\<close>, and \<open>N\<close> are the keys that \<open>all_data\<close> gained.\<close>
  "run_inv format s all_data s' all_data' per N \<longleftrightarrow>
     w_writes s' = w_writes s @ per
   \<and> fst ` set all_data' = fst ` set all_data \<union> N
   \<and> fst ` set per = (\<lambda>n. (w_data_dir s, clean_filename n @ ''.'' @ format)) ` N"

definition row_of :: "'v env \<Rightarrow> string \<Rightarrow> raw_obs \<Rightarrow> 'v row \<Rightarrow> bool" where
  \<comment> \<open>The row carries the series identifier, and the value and the date that the
      observation converts to.\<close>
  "row_of env series_id ob r \<longleftrightarrow>
     r_series_id r = series_id
   \<and> to_numeric_cell env (cell_of ''value'' ob) = Some (r_value r)
   \<and> to_datetime_cell env (cell_of ''date'' ob) = Inr (r_date r)"

definition fetched_row :: "'v env \<Rightarrow> string \<Rightarrow> 'v row \<Rightarrow> bool" where
  \<comment> \<open>The row stems from an observation that the endpoint returned to a request of the
      module.\<close>
  "fetched_row env start_date r \<longleftrightarrow>
     (\<exists>series_id s observations ob.
        fst (send_request env series_id start_date None s) = Inr (Some observations)
      \<and> ob \<in> set observations \<and> row_of env series_id ob r)"

definition writes_ok :: "'v env \<Rightarrow> string \<Rightarrow> 'v world \<Rightarrow> 'v world \<Rightarrow> bool" where
  \<comment> \<open>From \<open>s\<close> to \<open>s'\<close> writer calls were added, and every row they wrote is such a row.\<close>
  "writes_ok env start_date s s' \<longleftrightarrow>
     (\<exists>new. w_writes s' = w_writes s @ new
        \<and> (\<forall>w \<in> set new. \<forall>r \<in> set (fst (snd (snd w))). fetched_row env start_date r))"

definition data_ok :: "'v env \<Rightarrow> string \<Rightarrow> (string \<times> 'v row list) list \<Rightarrow> bool" where
  \<comment> \<open>So is every row of the datasets collected so far.\<close>
  "data_ok env start_date all_data \<longleftrightarrow>
     (\<forall>kv \<in> set all_data. \<forall>r \<in> set (snd kv). fetched_row env start_date r)"

section \<open>Properties\<close>

subsection \<open>The catalogue lookup\<close>

lemma distinct_series_mappings: "distinct (map fst series_mappings)"
  by (simp add: series_mappings_def)

text \<open>
  C9: the lookup is a total function of the name alone, and it is a lookup in the
  table: for every entry of the table it returns the identifiers of the entry, in their
  order, so \<open>GDP, GDPC1\<close> on \<open>GDP data\<close>; and on every name that is not a key
  of the table it returns the empty list.
\<close>

theorem resolve_lookup:
  "get_corrected_series_ids ''GDP data'' = [''GDP'', ''GDPC1'']
   \<and> (\<forall>name ids. (name, ids) \<in> set series_mappings \<longrightarrow> get_corrected_series_ids name = ids)
   \<and> (\<forall>name. name \<notin> fst ` set series_mappings \<longrightarrow> get_corrected_series_ids name = [])"
proof (intro conjI allI impI)
  show "get_corrected_series_ids ''GDP data'' = [''GDP'', ''GDPC1'']"
    by (simp add: get_corrected_series_ids_def series_mappings_def)
next
  fix name ids
  assume "(name, ids) \<in> set series_mappings"
  with distinct_series_mappings have "map_of series_mappings name = Some ids"
    by (rule map_of_is_SomeI)
  then show "get_corrected_series_ids name = ids"
    by (simp add: get_corrected_series_ids_def)
next
  fix name :: string
  assume "name \<notin> fst ` set series_mappings"
  then have "map_of series_mappings name = None"
    by (simp add: map_of_eq_None_iff)
  then show "get_corrected_series_ids name = []"
    by (simp add: get_corrected_series_ids_def)
qed

theorem resolve_lookup_witness:
  "(''CPI data'', [''CPIAUCSL'', ''CPALTT01USM657N'']) \<in> set series_mappings
   \<and> get_corrected_series_ids ''CPI data'' = [''CPIAUCSL'', ''CPALTT01USM657N'']
   \<and> ''unknown indicator'' \<notin> fst ` set series_mappings
   \<and> get_corrected_series_ids ''unknown indicator'' = []"
proof -
  have h1: "(''CPI data'', [''CPIAUCSL'', ''CPALTT01USM657N'']) \<in> set series_mappings"
    by (simp add: series_mappings_def)
  have h2: "''unknown indicator'' \<notin> fst ` set series_mappings"
    by (simp add: series_mappings_def)
  from resolve_lookup h1
  have c1: "get_corrected_series_ids ''CPI data'' = [''CPIAUCSL'', ''CPALTT01USM657N'']"
    by blast
  from resolve_lookup h2 have c2: "get_corrected_series_ids ''unknown indicator'' = []"
    by blast
  from h1 h2 c1 c2 show ?thesis by (intro conjI)
qed

subsection \<open>Reading a request-definition file\<close>

lemma token_group_Some:
  "token_group a = Some g \<Longrightarrow> g \<noteq> [] \<and> (\<forall>c \<in> set g. token_char c)"
  by (auto simp: token_group_def split: list.splits if_splits dest: set_takeWhileD)

lemma search_token_Some:
  "search_token key t = Some g \<Longrightarrow> g \<noteq> [] \<and> (\<forall>c \<in> set g. token_char c)"
proof (induction t)
  case Nil
  then show ?case by simp
next
  case (Cons c cs)
  then show ?case
    by (auto split: if_splits option.splits dest: token_group_Some)
qed

lemma strip_no_space:
  assumes "\<forall>c \<in> set g. \<not> is_space c"
  shows "strip g = g"
proof (cases g)
  case Nil
  then show ?thesis by (simp add: strip_def)
next
  case (Cons a as)
  with assms have front: "dropWhile is_space g = g" by simp
  from Cons have "rev g \<noteq> []" by simp
  moreover from assms Cons have "\<not> is_space (hd (rev g))"
    by (metis hd_rev last_in_set list.distinct(1))
  ultimately have "dropWhile is_space (rev g) = rev g"
    by (simp add: dropWhile_eq_self_iff)
  with front show ?thesis by (simp add: strip_def)
qed

lemma strip_token: "search_token key t = Some g \<Longrightarrow> strip g = g"
  using search_token_Some [of key t g] by (auto intro: strip_no_space simp: token_char_def)

text \<open>
  C6: \<open>parse_bruno_file\<close> returns a configuration on every path and every state. An
  exception of the \<open>try\<close> block is caught and logged, and the configuration returned
  then has its four fields empty; so it is whenever the file cannot be read. When the
  file is read, each field whose pattern finds no match is the empty string.
\<close>

theorem parse_bruno_file_never_raises:
  "(\<forall>e. parse_bruno_try env p s = Inl e \<longrightarrow>
        parse_bruno_file env p s = (empty_config, logm ERROR (Parse_error p e) s))
   \<and> (\<forall>e. e_read env p = Inl e \<longrightarrow> fst (parse_bruno_file env p s) = empty_config)
   \<and> (\<forall>content. e_read env p = Inr content \<longrightarrow>
        (search_line ''name'' content = None \<longrightarrow> c_name (fst (parse_bruno_file env p s)) = [])
      \<and> (search_line ''url'' content = None \<longrightarrow> c_url (fst (parse_bruno_file env p s)) = [])
      \<and> (search_token ''series_id'' content = None
           \<longrightarrow> c_series_id (fst (parse_bruno_file env p s)) = [])
      \<and> (search_token ''api_key'' content = None
           \<longrightarrow> c_api_key (fst (parse_bruno_file env p s)) = []))"
  by (auto simp: parse_bruno_file_def parse_bruno_try_def empty_config_def Let_def
           split: sum.splits option.splits)

theorem parse_bruno_file_never_raises_witness:
  "e_read (demo_env three_files [] argsort_stable) ''api/missing.bru''
     = Inl (OSError ''No such file or directory'')
   \<and> fst (parse_bruno_file (demo_env three_files [] argsort_stable) ''api/missing.bru'' demo_world)
     = empty_config
   \<and> e_read (demo_env three_files [] argsort_stable) ''api/a.bru'' = Inr ''name: A''
   \<and> search_token ''api_key'' ''name: A'' = None
   \<and> c_api_key (fst (parse_bruno_file (demo_env three_files [] argsort_stable) ''api/a.bru'' demo_world))
     = []"
proof -
  let ?env = "demo_env three_files [] argsort_stable"
  have r1: "e_read ?env ''api/missing.bru'' = Inl (OSError ''No such file or directory'')"
    by (simp add: demo_env_def three_files_def bru_def)
  have r2: "e_read ?env ''api/a.bru'' = Inr ''name: A''"
    by (simp add: demo_env_def three_files_def bru_def)
  have r3: "search_token ''api_key'' ''name: A'' = None"
    by (simp add: starts_with_def)
  from parse_bruno_file_never_raises [of ?env "''api/missing.bru''" demo_world] r1
  have c1: "fst (parse_bruno_file ?env ''api/missing.bru'' demo_world) = empty_config"
    by blast
  from parse_bruno_file_never_raises [of ?env "''api/a.bru''" demo_world] r2 r3
  have c2: "c_api_key (fst (parse_bruno_file ?env ''api/a.bru'' demo_world)) = []"
    by blast
  from r1 r2 r3 c1 c2 show ?thesis by blast
qed

subsection \<open>The effective API key\<close>

lemma parse_api_key:
  "w_api_key (snd (parse_bruno_file env p s)) =
     (if truthy (w_api_key s) then w_api_key s
      else (case e_read env p of
              Inl e \<Rightarrow> w_api_key s
            | Inr content \<Rightarrow>
                (case search_token ''api_key'' content of
                   None \<Rightarrow> w_api_key s
                 | Some k \<Rightarrow> Some k)))"
  by (auto simp: parse_bruno_file_def parse_bruno_try_def logm_def Let_def strip_token
           split: sum.splits option.splits)

lemma parse_keeps_key:
  "truthy (w_api_key s) \<Longrightarrow>
     w_api_key (fold (\<lambda>q t. snd (parse_bruno_file env q t)) ps s) = w_api_key s"
  by (induction ps arbitrary: s) (simp_all add: parse_api_key)

lemma parse_no_token:
  "\<not> truthy (w_api_key s) \<Longrightarrow>
   \<forall>q \<in> set ps. \<forall>c. e_read env q = Inr c \<longrightarrow> search_token ''api_key'' c = None \<Longrightarrow>
     w_api_key (fold (\<lambda>q t. snd (parse_bruno_file env q t)) ps s) = w_api_key s"
  by (induction ps arbitrary: s) (auto simp: parse_api_key split: sum.splits)

text \<open>
  C8: the key is set at most once, by the first file that holds a token. Start without
  a configured key (\<open>None\<close> or the empty string) and parse a sequence of files: while
  the files hold no \<open>api_key\<close> token the key stays unset; the first file with a token
  \<open>k\<close> sets the key to \<open>k\<close>; and whatever files are parsed later, with whatever
  tokens, the key is still \<open>k\<close>.
\<close>

theorem api_key_first_write_wins:
  assumes "\<not> truthy (w_api_key s)"
    and "\<forall>q \<in> set earlier. \<forall>c. e_read env q = Inr c \<longrightarrow> search_token ''api_key'' c = None"
    and "e_read env p = Inr content"
    and "search_token ''api_key'' content = Some k"
  shows "w_api_key (fold (\<lambda>q t. snd (parse_bruno_file env q t)) earlier s) = w_api_key s
       \<and> w_api_key (fold (\<lambda>q t. snd (parse_bruno_file env q t)) (earlier @ [p]) s) = Some k
       \<and> w_api_key (fold (\<lambda>q t. snd (parse_bruno_file env q t)) (earlier @ p # later) s) = Some k"
proof -
  let ?run = "fold (\<lambda>q t. snd (parse_bruno_file env q t))"
  have unset: "w_api_key (?run earlier s) = w_api_key s"
    using assms(1,2) by (rule parse_no_token)
  have first: "w_api_key (snd (parse_bruno_file env p (?run earlier s))) = Some k"
    using assms unset by (simp add: parse_api_key)
  have "k \<noteq> []" using assms(4) search_token_Some by blast
  then have "truthy (w_api_key (snd (parse_bruno_file env p (?run earlier s))))"
    using first by (simp add: truthy_def)
  then have "w_api_key (?run later (snd (parse_bruno_file env p (?run earlier s)))) = Some k"
    using first by (simp add: parse_keeps_key)
  with unset first show ?thesis by simp
qed

theorem api_key_first_write_wins_witness:
  "\<not> truthy (w_api_key demo_world)
   \<and> search_token ''api_key'' ''url: u?api_key=k1&x=1'' = Some ''k1''
   \<and> search_token ''api_key'' ''api_key=k2'' = Some ''k2''
   \<and> w_api_key (fold (\<lambda>q t. snd (parse_bruno_file (demo_env three_files [] argsort_stable) q t))
        [''api/a.bru'', ''api/b.bru'', ''api/c.bru''] demo_world) = Some ''k1''"
proof -
  let ?env = "demo_env three_files [] argsort_stable"
  have h1: "\<not> truthy (w_api_key demo_world)"
    by (simp add: truthy_def demo_world_def)
  have h2: "\<forall>q \<in> set [''api/a.bru'']. \<forall>c. e_read ?env q = Inr c \<longrightarrow> search_token ''api_key'' c = None"
    by (simp add: demo_env_def three_files_def bru_def starts_with_def)
  have h3: "e_read ?env ''api/b.bru'' = Inr ''url: u?api_key=k1&x=1''"
    by (simp add: demo_env_def three_files_def bru_def)
  have h4: "search_token ''api_key'' ''url: u?api_key=k1&x=1'' = Some ''k1''"
    by (simp add: starts_with_def token_group_def token_char_def is_space_def)
  have h5: "search_token ''api_key'' ''api_key=k2'' = Some ''k2''"
    by (simp add: starts_with_def token_group_def token_char_def is_space_def)
  from api_key_first_write_wins [OF h1 h2 h3 h4, of "[''api/c.bru'']"] h1 h4 h5
  show ?thesis by simp
qed

subsection \<open>Saving in an unsupported format\<close>

lemma save_data_unsupported:
  assumes "format \<notin> {''csv'', ''json'', ''parquet''}"
  shows "save_data env data filename format s =
           (Inr (), logm ERROR (Save_error (w_data_dir s, filename @ ''.'' @ format)
                                  (ValueError (''Unsupported format: '' @ format))) s)"
  using assms by (simp add: save_data_def save_data_try_def)

text \<open>
  C1: of the files the claim holds, of the caller it does not. For a format other
  than \<open>csv\<close>, \<open>json\<close> and \<open>parquet\<close> the module raises \<open>ValueError\<close> before
  any writer is called, so no file is created or touched (\<open>save_data_unsupported\<close>:
  the state changes by one log entry). But the \<open>raise\<close> stands inside the \<open>try\<close>
  block of \<open>save_data\<close>, whose handler catches every exception: the error that the
  module raises for the caller is logged and the call returns normally. At the format
  \<open>xml\<close>:
\<close>

theorem unsupported_format_swallowed:
  "fst (save_data (demo_env [] [] argsort_stable) [] ''out'' ''xml'' demo_world) = Inr ()
   \<and> w_writes (snd (save_data (demo_env [] [] argsort_stable) [] ''out'' ''xml'' demo_world)) = []
   \<and> w_log (snd (save_data (demo_env [] [] argsort_stable) [] ''out'' ''xml'' demo_world))
     = [(ERROR, Save_error (''data'', ''out.xml'') (ValueError ''Unsupported format: xml''))]"
  by code_simp

subsection \<open>Sorting: the contract, and a sort that meets it\<close>

lemma date_le_trans: "date_le a b \<Longrightarrow> date_le b c \<Longrightarrow> date_le a c"
  by (auto simp: date_le_def split: option.splits)

lemma date_le_total: "date_le a b \<or> date_le b a"
  by (auto simp: date_le_def split: option.splits)

lemma mset_insert_idx: "mset (insert_idx precedes i js) = add_mset i (mset js)"
  by (induction js) auto

lemma set_insert_idx: "set (insert_idx precedes i js) = insert i (set js)"
  by (induction js) auto

lemma mset_foldr_insert_idx: "mset (foldr (insert_idx precedes) xs []) = mset xs"
  by (induction xs) (auto simp: mset_insert_idx)

lemma sorted_insert_idx:
  assumes "\<And>i j. precedes i j \<Longrightarrow> date_le (ds ! i) (ds ! j)"
    and "\<And>i j. \<not> precedes i j \<Longrightarrow> date_le (ds ! j) (ds ! i)"
    and "sorted_wrt (\<lambda>i j. date_le (ds ! i) (ds ! j)) js"
  shows "sorted_wrt (\<lambda>i j. date_le (ds ! i) (ds ! j)) (insert_idx precedes i js)"
  using assms(3)
proof (induction js)
  case Nil
  then show ?case by simp
next
  case (Cons j js)
  show ?case
  proof (cases "precedes i j")
    case True
    then have "date_le (ds ! i) (ds ! j)" by (rule assms(1))
    with Cons.prems True show ?thesis
      by (auto intro: date_le_trans)
  next
    case False
    then have "date_le (ds ! j) (ds ! i)" by (rule assms(2))
    with Cons False show ?thesis
      by (auto simp: set_insert_idx)
  qed
qed

lemma sorted_foldr_insert_idx:
  assumes "\<And>i j. precedes i j \<Longrightarrow> date_le (ds ! i) (ds ! j)"
    and "\<And>i j. \<not> precedes i j \<Longrightarrow> date_le (ds ! j) (ds ! i)"
  shows "sorted_wrt (\<lambda>i j. date_le (ds ! i) (ds ! j)) (foldr (insert_idx precedes) xs [])"
  by (induction xs) (auto intro: sorted_insert_idx assms)

lemma argsort_ok_stable: "argsort_ok argsort_stable"
  unfolding argsort_ok_def argsort_stable_def
proof (intro allI conjI)
  fix ds :: "int option list"
  show "mset (foldr (insert_idx (\<lambda>i j. date_le (ds ! i) (ds ! j))) [0..<length ds] []) = mset [0..<length ds]"
    by (rule mset_foldr_insert_idx)
  have "sorted_wrt (\<lambda>i j. date_le (ds ! i) (ds ! j))
          (foldr (insert_idx (\<lambda>i j. date_le (ds ! i) (ds ! j))) [0..<length ds] [])"
    using date_le_total by (intro sorted_foldr_insert_idx) auto
  then show "sorted_wrt date_le
          (map (\<lambda>i. ds ! i) (foldr (insert_idx (\<lambda>i j. date_le (ds ! i) (ds ! j))) [0..<length ds] []))"
    by (simp add: sorted_wrt_map)
qed

lemma sequence_Inr: "sequence xs = Inr ys \<Longrightarrow> xs = map Inr ys"
  by (induction xs arbitrary: ys rule: sequence.induct) (auto split: sum.splits)

lemma take_rows_ok:
  assumes "argsort_ok f"
  shows "take_rows df (f (map fst df)) = Inr (map (\<lambda>i. df ! i) (f (map fst df)))"
    and "mset (map (\<lambda>i. df ! i) (f (map fst df))) = mset df"
    and "sorted_wrt date_le (map fst (map (\<lambda>i. df ! i) (f (map fst df))))"
proof -
  let ?order = "f (map fst df)"
  from assms have perm: "mset ?order = mset [0..<length df]"
    and srt: "sorted_wrt date_le (map (\<lambda>i. map fst df ! i) ?order)"
    by (simp_all add: argsort_ok_def del: mset_upt)
  from perm have "set ?order = set [0..<length df]" by (rule mset_eq_setD)
  then have inb: "\<forall>i \<in> set ?order. i < length df" by simp
  then show "take_rows df ?order = Inr (map (\<lambda>i. df ! i) ?order)"
    by (simp add: take_rows_def)
  have "mset (map (\<lambda>i. df ! i) ?order) = image_mset (\<lambda>i. df ! i) (mset ?order)" by simp
  also have "\<dots> = mset (map (\<lambda>i. df ! i) [0..<length df])" by (simp only: perm mset_map)
  also have "\<dots> = mset df" by (simp add: map_nth)
  finally show "mset (map (\<lambda>i. df ! i) ?order) = mset df" .
  have eq: "map fst (map (\<lambda>i. df ! i) ?order) = map (\<lambda>i. map fst df ! i) ?order"
    using inb by simp
  show "sorted_wrt date_le (map fst (map (\<lambda>i. df ! i) ?order))"
    unfolding eq by (rule srt)
qed

subsection \<open>Cleaning a response\<close>

lemma set_dropna: "(d, v) \<in> set (dropna xs) \<longleftrightarrow> (d, Some v) \<in> set xs"
  by (induction xs rule: dropna.induct) auto

lemma length_dropna_zip:
  "length ds = length vs \<Longrightarrow> length (dropna (zip ds vs)) = length (filter (\<lambda>v. v \<noteq> None) vs)"
  by (induction ds vs rule: list_induct2) (auto split: option.splits)

lemma dropna_all_None: "\<forall>x \<in> set xs. snd x = None \<Longrightarrow> dropna xs = []"
  by (induction xs rule: dropna.induct) auto

lemma sequence_isl: "isl (sequence (map f xs)) \<longleftrightarrow> (\<exists>x \<in> set xs. isl (f x))"
proof (induction xs)
  case Nil
  then show ?case by simp
next
  case (Cons x xs)
  then show ?case by (cases "f x"; cases "sequence (map f xs)") auto
qed

lemma column_isl: "isl (column k obs) \<longleftrightarrow> (\<forall>r \<in> set obs. k \<notin> fst ` set r)"
  by (auto simp: column_def)

lemma column_Inr: "column k obs = Inr cs \<Longrightarrow> cs = map (cell_of k) obs"
  by (auto simp: column_def split: if_splits)

lemma clean_isl:
  assumes "argsort_ok (e_argsort env)"
  shows "isl (clean env obs) \<longleftrightarrow>
           (\<forall>r \<in> set obs. ''date'' \<notin> fst ` set r)
         \<or> (\<exists>ob \<in> set obs. isl (to_datetime_cell env (cell_of ''date'' ob)))
         \<or> (\<forall>r \<in> set obs. ''value'' \<notin> fst ` set r)"
proof (cases "column ''date'' obs")
  case (Inl e)
  then have "isl (column ''date'' obs)" by simp
  then have "\<forall>r \<in> set obs. ''date'' \<notin> fst ` set r" by (simp only: column_isl)
  with Inl show ?thesis by (simp add: clean_def)
next
  case date: (Inr date_cells)
  then have nd: "\<not> (\<forall>r \<in> set obs. ''date'' \<notin> fst ` set r)"
    using column_isl [of "''date''" obs] by simp
  have dc: "date_cells = map (cell_of ''date'') obs" using date by (rule column_Inr)
  show ?thesis
  proof (cases "sequence (map (to_datetime_cell env) date_cells)")
    case (Inl e)
    then have "isl (sequence (map (to_datetime_cell env) date_cells))" by simp
    then have "\<exists>ob \<in> set obs. isl (to_datetime_cell env (cell_of ''date'' ob))"
      by (simp add: sequence_isl dc)
    with date Inl show ?thesis by (simp add: clean_def)
  next
    case dates: (Inr dates)
    then have "\<not> isl (sequence (map (to_datetime_cell env) date_cells))" by simp
    then have np: "\<not> (\<exists>ob \<in> set obs. isl (to_datetime_cell env (cell_of ''date'' ob)))"
      by (simp add: sequence_isl dc)
    show ?thesis
    proof (cases "column ''value'' obs")
      case (Inl e)
      then have "isl (column ''value'' obs)" by simp
      then have "\<forall>r \<in> set obs. ''value'' \<notin> fst ` set r" by (simp only: column_isl)
      with date dates Inl show ?thesis by (simp add: clean_def)
    next
      case (Inr value_cells)
      then have nv: "\<not> (\<forall>r \<in> set obs. ''value'' \<notin> fst ` set r)"
        using column_isl [of "''value''" obs] by simp
      from date dates Inr have "\<not> isl (clean env obs)"
        by (simp add: clean_def Let_def take_rows_ok(1) [OF assms])
      with nd np nv show ?thesis by blast
    qed
  qed
qed

lemma clean_Inr:
  assumes "argsort_ok (e_argsort env)" and "clean env obs = Inr rows"
  obtains dates where
    "map (\<lambda>ob. to_datetime_cell env (cell_of ''date'' ob)) obs = map Inr dates"
    "mset rows = mset (dropna (zip dates (map (\<lambda>ob. to_numeric_cell env (cell_of ''value'' ob)) obs)))"
    "sorted_wrt date_le (map fst rows)"
proof -
  from assms(2) obtain date_cells dates value_cells where
    c1: "column ''date'' obs = Inr date_cells"
    and c2: "sequence (map (to_datetime_cell env) date_cells) = Inr dates"
    and c3: "column ''value'' obs = Inr value_cells"
    and c4: "take_rows (dropna (zip dates (map (to_numeric_cell env) value_cells)))
               (e_argsort env (map fst (dropna (zip dates (map (to_numeric_cell env) value_cells)))))
             = Inr rows"
    by (auto simp: clean_def Let_def split: sum.splits)
  let ?df = "dropna (zip dates (map (to_numeric_cell env) value_cells))"
  have dc: "date_cells = map (cell_of ''date'') obs" using c1 by (rule column_Inr)
  have vc: "value_cells = map (cell_of ''value'') obs" using c3 by (rule column_Inr)
  from c4 have rows: "rows = map (\<lambda>i. ?df ! i) (e_argsort env (map fst ?df))"
    by (simp add: take_rows_ok(1) [OF assms(1)])
  have 1: "map (\<lambda>ob. to_datetime_cell env (cell_of ''date'' ob)) obs = map Inr dates"
    using sequence_Inr [OF c2] by (simp add: dc comp_def)
  have 2: "mset rows = mset (dropna (zip dates (map (\<lambda>ob. to_numeric_cell env (cell_of ''value'' ob)) obs)))"
    unfolding rows by (simp only: take_rows_ok(2) [OF assms(1)]) (simp add: vc comp_def)
  have 3: "sorted_wrt date_le (map fst rows)"
    unfolding rows by (rule take_rows_ok(3) [OF assms(1)])
  from 1 2 3 show thesis by (rule that)
qed

lemma fetch_Some:
  assumes "fst (fetch_series_data env sid start end s) = Some df"
  obtains obs rows where
    "fst (send_request env sid start end s) = Inr (Some obs)"
    "\<not> df_empty obs"
    "clean env obs = Inr rows"
    "df = map (stamp sid (w_clock (snd (send_request env sid start end s)))) rows"
  using assms
  by (auto simp: fetch_series_data_def now_def logm_def Let_def
           split: prod.splits sum.splits option.splits if_splits)

lemma e_argsort_gdp_env: "e_argsort (gdp_env observations argsort) = argsort"
  by (simp add: gdp_env_def demo_env_def)

lemma fetch_three_obs:
  "fetch_series_data (gdp_env three_obs argsort_stable) ''GDP'' ''1990-01-01'' None demo_world
   = (Some [\<lparr>r_date = Some 20200201, r_value = 2, r_series_id = ''GDP'', r_fetched_at = 1, r_indicator = None\<rparr>,
            \<lparr>r_date = Some 20200301, r_value = 3, r_series_id = ''GDP'', r_fetched_at = 1, r_indicator = None\<rparr>],
      \<lparr>w_api_key = None, w_data_dir = ''data'', w_clock = 2, w_writes = [],
        w_log = [(INFO, Fetching ''GDP''), (INFO, Fetched 2 ''GDP'')]\<rparr>)"
  by code_simp

lemma request_three_obs:
  "send_request (gdp_env three_obs argsort_stable) ''GDP'' ''1990-01-01'' None demo_world
   = (Inr (Some three_obs),
      \<lparr>w_api_key = None, w_data_dir = ''data'', w_clock = 1, w_writes = [],
        w_log = [(INFO, Fetching ''GDP'')]\<rparr>)"
  by code_simp

lemma fetch_None_iff:
  "fst (fetch_series_data env sid start end s) = None \<longleftrightarrow>
     (case fst (send_request env sid start end s) of
        Inl e \<Rightarrow> True
      | Inr None \<Rightarrow> True
      | Inr (Some obs) \<Rightarrow> df_empty obs \<or> isl (clean env obs))"
  by (auto simp: fetch_series_data_def now_def Let_def
           split: prod.splits sum.splits option.splits if_splits)

subsection \<open>The order of the rows\<close>

text \<open>
  C2 as stated asks for a stable sort. The module calls \<open>df.sort_values('date')\<close>
  with the default \<open>kind='quicksort'\<close>, which is not stable: numpy's quicksort
  partitions a column that is longer than the cut-off for its insertion sort, and the
  exchanges of the partition move rows of equal date past each other. Twenty
  observations of one day, numbered from 101 in the order of the response, come back
  with the second to the eighteenth in reverse order. The order is the same whether
  the cut-off is 16 or 15.
\<close>

theorem sort_not_stable_counterexample:
  "map_option (map r_value)
     (fst (fetch_series_data (gdp_env twenty_same_day (numpy_argsort 16))
             ''GDP'' ''1990-01-01'' None demo_world))
     = Some [101, 118, 117, 116, 115, 114, 113, 112, 111, 110,
           109, 108, 107, 106, 105, 104, 103, 102, 119, 120]
   \<and> map_option (map r_value)
     (fst (fetch_series_data (gdp_env twenty_same_day (numpy_argsort 15))
             ''GDP'' ''1990-01-01'' None demo_world))
     = Some [101, 118, 117, 116, 115, 114, 113, 112, 111, 110,
           109, 108, 107, 106, 105, 104, 103, 102, 119, 120]"
  by code_simp

text \<open>
  C2, amended: for every response and whatever the input order, the rows of the
  dataset that \<open>fetch_series_data\<close> returns ascend by date, rows without a date
  last. The order among rows of equal date is left to the sort.
\<close>


theorem rows_sorted_by_date:
  assumes "argsort_ok (e_argsort env)"
    and "fst (fetch_series_data env sid start end s) = Some df"
  shows "sorted_wrt date_le (map r_date df)"
proof -
  from assms(2) obtain obs rows where
    cl: "clean env obs = Inr rows"
    and df: "df = map (stamp sid (w_clock (snd (send_request env sid start end s)))) rows"
    by (rule fetch_Some)
  from assms(1) cl have "sorted_wrt date_le (map fst rows)"
    by (rule clean_Inr)
  moreover have "map r_date df = map fst rows"
    by (simp add: df stamp_def comp_def)
  ultimately show ?thesis by simp
qed

theorem rows_sorted_by_date_witness:
  "argsort_ok (e_argsort (gdp_env three_obs argsort_stable))
   \<and> map_option (map r_date)
        (fst (fetch_series_data (gdp_env three_obs argsort_stable)
                ''GDP'' ''1990-01-01'' None demo_world))
     = Some [Some 20200201, Some 20200301]
   \<and> sorted_wrt date_le [Some 20200201, Some 20200301]"
proof -
  let ?env = "gdp_env three_obs argsort_stable"
  have ok: "argsort_ok (e_argsort ?env)"
    by (simp add: e_argsort_gdp_env argsort_ok_stable)
  have res: "fst (fetch_series_data ?env ''GDP'' ''1990-01-01'' None demo_world)
     = Some [\<lparr>r_date = Some 20200201, r_value = 2, r_series_id = ''GDP'', r_fetched_at = 1, r_indicator = None\<rparr>,
            \<lparr>r_date = Some 20200301, r_value = 3, r_series_id = ''GDP'', r_fetched_at = 1, r_indicator = None\<rparr>]"
    by (simp add: fetch_three_obs)
  from rows_sorted_by_date [OF ok res] ok res show ?thesis by simp
qed

subsection \<open>When a fetch fails\<close>

text \<open>
  C3 as stated counts a table that is empty after cleaning as a failure. The module
  tests \<open>df.empty\<close> before it cleans, so a response whose only row has a value that
  is not a number yields the empty dataset, not the failure value.
\<close>

theorem all_rows_dropped_counterexample:
  "fst (fetch_series_data (gdp_env [observation ''2020-01-01'' ''.''] argsort_stable)
          ''GDP'' ''1990-01-01'' None demo_world) = Some []"
  by code_simp

text \<open>
  C3, amended: \<open>fetch_series_data\<close> returns the failure value in exactly these
  cases: the request or its decoding raises; the response has no observations field;
  the table of observations is empty before cleaning; or cleaning raises, which it does
  when no record has a date, when a date cannot be converted, or when no record has a
  value. A response whose rows are all dropped by cleaning yields the empty dataset.
\<close>


theorem fetch_failure_cases:
  assumes "argsort_ok (e_argsort env)"
  shows "(fst (fetch_series_data env sid start end s) = None \<longleftrightarrow>
            (case fst (send_request env sid start end s) of
               Inl e \<Rightarrow> True
             | Inr None \<Rightarrow> True
             | Inr (Some obs) \<Rightarrow>
                 df_empty obs
               \<or> (\<forall>r \<in> set obs. ''date'' \<notin> fst ` set r)
               \<or> (\<exists>ob \<in> set obs. isl (to_datetime_cell env (cell_of ''date'' ob)))
               \<or> (\<forall>r \<in> set obs. ''value'' \<notin> fst ` set r)))
       \<and> (\<forall>obs. fst (send_request env sid start end s) = Inr (Some obs)
              \<and> fst (fetch_series_data env sid start end s) \<noteq> None
              \<and> (\<forall>ob \<in> set obs. to_numeric_cell env (cell_of ''value'' ob) = None)
            \<longrightarrow> fst (fetch_series_data env sid start end s) = Some [])"
proof (intro conjI allI impI)
  show "fst (fetch_series_data env sid start end s) = None \<longleftrightarrow>
            (case fst (send_request env sid start end s) of
               Inl e \<Rightarrow> True
             | Inr None \<Rightarrow> True
             | Inr (Some obs) \<Rightarrow>
                 df_empty obs
               \<or> (\<forall>r \<in> set obs. ''date'' \<notin> fst ` set r)
               \<or> (\<exists>ob \<in> set obs. isl (to_datetime_cell env (cell_of ''date'' ob)))
               \<or> (\<forall>r \<in> set obs. ''value'' \<notin> fst ` set r))"
    by (simp add: fetch_None_iff clean_isl [OF assms] split: sum.splits option.splits)
next
  fix obs
  assume h: "fst (send_request env sid start end s) = Inr (Some obs)
              \<and> fst (fetch_series_data env sid start end s) \<noteq> None
              \<and> (\<forall>ob \<in> set obs. to_numeric_cell env (cell_of ''value'' ob) = None)"
  then obtain df where some: "fst (fetch_series_data env sid start end s) = Some df"
    by blast
  then obtain obs' rows where
    rq: "fst (send_request env sid start end s) = Inr (Some obs')"
    and cl: "clean env obs' = Inr rows"
    and df: "df = map (stamp sid (w_clock (snd (send_request env sid start end s)))) rows"
    by (rule fetch_Some)
  from rq h have same: "obs' = obs" by simp
  from assms cl obtain dates where
    ms: "mset rows = mset (dropna (zip dates (map (\<lambda>ob. to_numeric_cell env (cell_of ''value'' ob)) obs')))"
    by (rule clean_Inr)
  have "dropna (zip dates (map (\<lambda>ob. to_numeric_cell env (cell_of ''value'' ob)) obs)) = []"
    using h by (intro dropna_all_None) (auto dest!: set_zip_rightD)
  with ms same have "rows = []" by simp
  with some df show "fst (fetch_series_data env sid start end s) = Some []" by simp
qed

theorem fetch_failure_cases_witness:
  "fst (fetch_series_data (gdp_env [observation ''2020-01-01'' ''.''] argsort_stable)
          ''XYZ'' ''1990-01-01'' None demo_world) = None
   \<and> fst (fetch_series_data (gdp_env [observation ''Jan 2020'' ''1''] argsort_stable)
          ''GDP'' ''1990-01-01'' None demo_world) = None
   \<and> fst (fetch_series_data (gdp_env [observation ''2020-01-01'' ''.''] argsort_stable)
          ''GDP'' ''1990-01-01'' None demo_world) = Some []"
proof -
  let ?dot = "gdp_env [observation ''2020-01-01'' ''.''] argsort_stable"
  let ?jan = "gdp_env [observation ''Jan 2020'' ''1''] argsort_stable"
  have ok: "argsort_ok (e_argsort ?dot)" "argsort_ok (e_argsort ?jan)"
    by (simp_all add: e_argsort_gdp_env argsort_ok_stable)
  have r1: "fst (send_request ?dot ''XYZ'' ''1990-01-01'' None demo_world)
              = Inl (RequestException ''400 Client Error'')"
    by code_simp
  have r2: "fst (send_request ?jan ''GDP'' ''1990-01-01'' None demo_world)
              = Inr (Some [observation ''Jan 2020'' ''1''])"
    by code_simp
  have p2: "isl (to_datetime_cell ?jan (cell_of ''date'' (observation ''Jan 2020'' ''1'')))"
    by code_simp
  have r3: "fst (send_request ?dot ''GDP'' ''1990-01-01'' None demo_world)
              = Inr (Some [observation ''2020-01-01'' ''.''])"
    by code_simp
  have p3: "\<forall>ob \<in> set [observation ''2020-01-01'' ''.''].
              to_numeric_cell ?dot (cell_of ''value'' ob) = None"
    by code_simp
  have n3: "fst (fetch_series_data ?dot ''GDP'' ''1990-01-01'' None demo_world) \<noteq> None"
    by code_simp
  from fetch_failure_cases [OF ok(1), of "''XYZ''" "''1990-01-01''" None demo_world] r1
  have c1: "fst (fetch_series_data ?dot ''XYZ'' ''1990-01-01'' None demo_world) = None"
    by simp
  from fetch_failure_cases [OF ok(2), of "''GDP''" "''1990-01-01''" None demo_world] r2 p2
  have c2: "fst (fetch_series_data ?jan ''GDP'' ''1990-01-01'' None demo_world) = None"
    by simp
  from fetch_failure_cases [OF ok(1), of "''GDP''" "''1990-01-01''" None demo_world] r3 p3 n3
  have c3: "fst (fetch_series_data ?dot ''GDP'' ''1990-01-01'' None demo_world) = Some []"
    by blast
  from c1 c2 c3 show ?thesis by simp
qed

subsection \<open>The stamp of a fetch\<close>

text \<open>
  C10: in a call of \<open>fetch_series_data\<close> that returns a dataset, every row carries
  the series identifier of the call and the same \<open>fetched_at\<close>, the one reading of
  the clock taken after the request; the clock is read once, not once per row.
\<close>


theorem one_clock_reading_per_fetch:
  assumes "fetch_series_data env sid start end s = (Some df, s')"
  shows "(\<forall>r \<in> set df. r_series_id r = sid
            \<and> r_fetched_at r = w_clock (snd (send_request env sid start end s)))
       \<and> w_clock s' = Suc (w_clock (snd (send_request env sid start end s)))"
proof -
  from assms have "fst (fetch_series_data env sid start end s) = Some df" by simp
  then obtain rows where
    df: "df = map (stamp sid (w_clock (snd (send_request env sid start end s)))) rows"
    by (rule fetch_Some)
  from assms have "w_clock s' = Suc (w_clock (snd (send_request env sid start end s)))"
    by (auto simp: fetch_series_data_def now_def logm_def Let_def
             split: prod.splits sum.splits option.splits if_splits)
  with df show ?thesis by (auto simp: stamp_def)
qed

theorem one_clock_reading_per_fetch_witness:
  "map_option (map r_fetched_at)
     (fst (fetch_series_data (gdp_env three_obs argsort_stable)
             ''GDP'' ''1990-01-01'' None demo_world))
     = Some [1, 1]
   \<and> w_clock (snd (send_request (gdp_env three_obs argsort_stable)
                     ''GDP'' ''1990-01-01'' None demo_world)) = 1
   \<and> w_clock (snd (fetch_series_data (gdp_env three_obs argsort_stable)
                     ''GDP'' ''1990-01-01'' None demo_world)) = 2"
  using one_clock_reading_per_fetch [OF fetch_three_obs]
  by (simp add: fetch_three_obs request_three_obs)

subsection \<open>What a run writes\<close>

lemma fetch_series_data_frame:
  "w_writes (snd (fetch_series_data env sid start end s)) = w_writes s
   \<and> w_data_dir (snd (fetch_series_data env sid start end s)) = w_data_dir s"
  by (auto simp: fetch_series_data_def send_request_def now_def logm_def Let_def
           split: prod.splits sum.splits option.splits if_splits)

lemma fetch_each_frame:
  "w_writes (snd (fetch_each env start delay ids s)) = w_writes s
   \<and> w_data_dir (snd (fetch_each env start delay ids s)) = w_data_dir s"
proof (induction ids arbitrary: s)
  case Nil
  then show ?case by simp
next
  case (Cons sid ids)
  obtain df s1 where f: "fetch_series_data env sid start None s = (df, s1)"
    by (cases "fetch_series_data env sid start None s")
  from fetch_series_data_frame [of env sid start None s] f
  have s1: "w_writes s1 = w_writes s" "w_data_dir s1 = w_data_dir s" by simp_all
  obtain dfs s3 where e: "fetch_each env start delay ids (sleep delay s1) = (dfs, s3)"
    by (cases "fetch_each env start delay ids (sleep delay s1)")
  from Cons.IH [of "sleep delay s1"] e
  have "w_writes s3 = w_writes s1" "w_data_dir s3 = w_data_dir s1"
    by (simp_all add: sleep_def)
  with s1 f e show ?case by simp
qed

lemma parse_bruno_file_frame:
  "w_writes (snd (parse_bruno_file env p s)) = w_writes s
   \<and> w_data_dir (snd (parse_bruno_file env p s)) = w_data_dir s"
  by (auto simp: parse_bruno_file_def parse_bruno_try_def logm_def Let_def
           split: sum.splits option.splits)

lemma resolve_series_frame:
  "w_writes (snd (resolve_series env bf s)) = w_writes s
   \<and> w_data_dir (snd (resolve_series env bf s)) = w_data_dir s"
proof -
  obtain config s1 where p: "parse_bruno_file env (bf_path bf) (logm INFO (Processing (bf_name bf)) s) = (config, s1)"
    by (cases "parse_bruno_file env (bf_path bf) (logm INFO (Processing (bf_name bf)) s)")
  from parse_bruno_file_frame [of env "bf_path bf" "logm INFO (Processing (bf_name bf)) s"] p
  have "w_writes s1 = w_writes s" "w_data_dir s1 = w_data_dir s"
    by (simp_all add: logm_def)
  with p show ?thesis
    by (simp add: resolve_series_def Let_def logm_def)
qed

lemma save_data_supported:
  assumes "format \<in> {''csv'', ''json'', ''parquet''}"
  shows "fst (save_data env data filename format s) = Inr ()"
    and "w_writes (snd (save_data env data filename format s)) =
           w_writes s @ [((w_data_dir s, filename @ ''.'' @ format), format, data,
                          e_write env (w_data_dir s, filename @ ''.'' @ format) format)]"
    and "w_data_dir (snd (save_data env data filename format s)) = w_data_dir s"
  using assms
  by (auto simp: save_data_def save_data_try_def call_writer_def logm_def Let_def
           split: option.splits)

lemma save_data_returns: "fst (save_data env data filename format s) = Inr ()"
  by (auto simp: save_data_def Let_def split: prod.splits sum.splits)

lemma hd_single: "length xs = 1 \<Longrightarrow> hd xs = concat xs"
  by (cases xs) auto

lemma process_bruno_file_eq:
  assumes "resolve_series env bf s = ((name, ids), s1)"
    and "fetch_each env start delay ids s1 = (dfs, s2)"
  shows "process_bruno_file env start format delay bf (all_data, s) =
           (if dfs = [] then (all_data, if ids = [] then s1 else logm WARNING (No_data name) s2)
            else (dict_set all_data name (concat dfs),
                  snd (save_data env (concat dfs) (clean_filename name) format s2)))"
proof (cases "ids = []")
  case True
  with assms show ?thesis by (simp add: process_bruno_file_def)
next
  case False
  with assms show ?thesis
    by (auto simp: process_bruno_file_def Let_def hd_single split: prod.splits)
qed

lemma set_dict_set: "fst ` set (dict_set kvs k v) = insert k (fst ` set kvs)"
proof (induction kvs)
  case Nil
  then show ?case by simp
next
  case (Cons kv kvs)
  obtain k' v' where kv: "kv = (k', v')" by (cases kv)
  show ?case
  proof (cases "k' = k")
    case True
    with kv show ?thesis by simp
  next
    case False
    with kv Cons.IH show ?thesis by (simp add: insert_commute)
  qed
qed

lemma process_bruno_file_step:
  assumes "format \<in> {''csv'', ''json'', ''parquet''}"
    and "process_bruno_file env start format delay bf (all_data, s) = (all_data', s')"
  shows "w_data_dir s' = w_data_dir s
       \<and> ((all_data' = all_data \<and> w_writes s' = w_writes s)
          \<or> (\<exists>name df. all_data' = dict_set all_data name df
                \<and> w_writes s' = w_writes s
                     @ [((w_data_dir s, clean_filename name @ ''.'' @ format), format, df,
                         e_write env (w_data_dir s, clean_filename name @ ''.'' @ format) format)]))"
proof -
  obtain name ids s1 where r: "resolve_series env bf s = ((name, ids), s1)"
    by (metis prod.collapse)
  obtain dfs s2 where f: "fetch_each env start delay ids s1 = (dfs, s2)"
    by (cases "fetch_each env start delay ids s1")
  from resolve_series_frame [of env bf s] r
  have s1: "w_writes s1 = w_writes s" "w_data_dir s1 = w_data_dir s" by simp_all
  from fetch_each_frame [of env start delay ids s1] f s1
  have s2: "w_writes s2 = w_writes s" "w_data_dir s2 = w_data_dir s" by simp_all
  show ?thesis
  proof (cases "dfs = []")
    case True
    with assms(2) process_bruno_file_eq [OF r f, of format all_data] s1 s2
    show ?thesis by (auto simp: logm_def split: if_splits)
  next
    case False
    with assms(2) process_bruno_file_eq [OF r f, of format all_data]
    have a: "all_data' = dict_set all_data name (concat dfs)"
      and s': "s' = snd (save_data env (concat dfs) (clean_filename name) format s2)"
      by simp_all
    from save_data_supported(2,3) [OF assms(1), of env "concat dfs" "clean_filename name" s2] s2 s'
    have "w_data_dir s' = w_data_dir s"
      and "w_writes s' = w_writes s
             @ [((w_data_dir s, clean_filename name @ ''.'' @ format), format, concat dfs,
                 e_write env (w_data_dir s, clean_filename name @ ''.'' @ format) format)]"
      by simp_all
    with a show ?thesis by blast
  qed
qed

lemma fold_process_bruno_file:
  assumes "format \<in> {''csv'', ''json'', ''parquet''}"
  shows "fold (process_bruno_file env start format delay) files (all_data, s) = (all_data', s')
     \<Longrightarrow> w_data_dir s' = w_data_dir s
       \<and> (\<exists>per N. run_inv format s all_data s' all_data' per N)"
proof (induction files arbitrary: all_data s)
  case Nil
  then have eq: "all_data' = all_data" "s' = s" by simp_all
  have "run_inv format s all_data s all_data [] {}"
    by (simp add: run_inv_def)
  then show ?case unfolding eq by blast
next
  case (Cons bf files)
  obtain ad1 s1 where p: "process_bruno_file env start format delay bf (all_data, s) = (ad1, s1)"
    by (cases "process_bruno_file env start format delay bf (all_data, s)")
  with Cons.prems
  have rest: "fold (process_bruno_file env start format delay) files (ad1, s1) = (all_data', s')"
    by simp
  from Cons.IH [OF rest] obtain per N where
    d: "w_data_dir s' = w_data_dir s1"
    and inv: "run_inv format s1 ad1 s' all_data' per N"
    by blast
  note step = process_bruno_file_step [OF assms p]
  from step have d1: "w_data_dir s1 = w_data_dir s" by (rule conjunct1)
  from step have
    "(ad1 = all_data \<and> w_writes s1 = w_writes s)
     \<or> (\<exists>name df. ad1 = dict_set all_data name df
            \<and> w_writes s1 = w_writes s
                 @ [((w_data_dir s, clean_filename name @ ''.'' @ format), format, df,
                     e_write env (w_data_dir s, clean_filename name @ ''.'' @ format) format)])"
    by (rule conjunct2)
  then show ?case
  proof (elim disjE exE conjE)
    assume a: "ad1 = all_data" and b: "w_writes s1 = w_writes s"
    have "run_inv format s all_data s' all_data' per N"
      using inv a b d1 by (simp add: run_inv_def)
    with d d1 show ?thesis by auto
  next
    fix name df
    assume a: "ad1 = dict_set all_data name df"
      and b: "w_writes s1 = w_writes s
                @ [((w_data_dir s, clean_filename name @ ''.'' @ format), format, df,
                    e_write env (w_data_dir s, clean_filename name @ ''.'' @ format) format)]"
    have "run_inv format s all_data s' all_data'
            (((w_data_dir s, clean_filename name @ ''.'' @ format), format, df,
               e_write env (w_data_dir s, clean_filename name @ ''.'' @ format) format) # per)
            (insert name N)"
      using inv a b d1 by (simp add: run_inv_def set_dict_set)
    with d d1 show ?thesis by auto
  qed
qed

lemma run_writes:
  assumes "format \<in> {''csv'', ''json'', ''parquet''}"
    and "fetch_all_indicators env dir start format delay s = (result, s')"
  shows "\<exists>per. w_writes s' = w_writes s @ per
            @ (if result = [] then []
               else [((w_data_dir s, ''all_economic_indicators.'' @ format), format,
                      concat (map tag_indicator result),
                      e_write env (w_data_dir s, ''all_economic_indicators.'' @ format) format)])
          \<and> fst ` set per = (\<lambda>n. (w_data_dir s, clean_filename n @ ''.'' @ format)) ` fst ` set result"
proof (cases "e_glob env dir")
  case None
  with assms(2) have "result = []" "w_writes s' = w_writes s"
    by (auto simp: fetch_all_indicators_def logm_def)
  then show ?thesis by simp
next
  case (Some files)
  let ?s0 = "logm INFO (Found_files (length files)) s"
  obtain ad s1 where f: "fold (process_bruno_file env start format delay) files ([], ?s0) = (ad, s1)"
    by (cases "fold (process_bruno_file env start format delay) files ([], ?s0)")
  from fold_process_bruno_file [OF assms(1) f] obtain per N where
    d: "w_data_dir s1 = w_data_dir ?s0" and inv: "run_inv format ?s0 [] s1 ad per N"
    by blast
  from inv have w: "w_writes s1 = w_writes s @ per"
    and k: "fst ` set ad = N"
    and n: "fst ` set per = (\<lambda>n. (w_data_dir s, clean_filename n @ ''.'' @ format)) ` N"
    by (simp_all add: run_inv_def logm_def)
  from d have d': "w_data_dir s1 = w_data_dir s" by (simp add: logm_def)
  from assms(2) Some f have res: "result = ad"
    by (simp add: fetch_all_indicators_def Let_def)
  show ?thesis
  proof (cases "ad = []")
    case True
    with assms(2) Some f have "s' = logm INFO (Completed (length ad)) s1"
      by (auto simp: fetch_all_indicators_def Let_def)
    then have "w_writes s' = w_writes s1"
      by (simp add: logm_def)
    with True res w k n show ?thesis by simp
  next
    case False
    let ?s2 = "logm INFO Creating_combined s1"
    from assms(2) Some f False
    have "s' = logm INFO (Completed (length ad))
                 (snd (save_data env (concat (map tag_indicator ad)) ''all_economic_indicators'' format ?s2))"
      by (auto simp: fetch_all_indicators_def Let_def)
    then have "w_writes s' = w_writes (snd (save_data env (concat (map tag_indicator ad))
                                              ''all_economic_indicators'' format ?s2))"
      by (simp add: logm_def)
    also have "\<dots> = w_writes ?s2
          @ [((w_data_dir ?s2, ''all_economic_indicators'' @ ''.'' @ format), format,
              concat (map tag_indicator ad),
              e_write env (w_data_dir ?s2, ''all_economic_indicators'' @ ''.'' @ format) format)]"
      by (rule save_data_supported(2) [OF assms(1)])
    finally have "w_writes s' = w_writes s @ per
          @ [((w_data_dir s, ''all_economic_indicators.'' @ format), format,
              concat (map tag_indicator ad),
              e_write env (w_data_dir s, ''all_economic_indicators.'' @ format) format)]"
      using w d' by (simp add: logm_def)
    with False res k n show ?thesis by simp
  qed
qed

lemma fetch_each_results:
  "fst (fetch_each env start delay ids s) = present (fetch_results env start delay ids s)"
proof (induction ids arbitrary: s)
  case Nil
  then show ?case by simp
next
  case (Cons sid ids)
  obtain df s1 where f: "fetch_series_data env sid start None s = (df, s1)"
    by (cases "fetch_series_data env sid start None s")
  obtain dfs s3 where e: "fetch_each env start delay ids (sleep delay s1) = (dfs, s3)"
    by (cases "fetch_each env start delay ids (sleep delay s1)")
  from Cons.IH [of "sleep delay s1"] e
  have "dfs = present (fetch_results env start delay ids (sleep delay s1))" by simp
  with f e show ?case by (cases df) simp_all
qed

lemma present_Nil: "present rs = [] \<longleftrightarrow> (\<forall>r \<in> set rs. r = None)"
  by (induction rs rule: present.induct) auto

text \<open>
  C4 as stated lets the orchestrator write a file only for a dataset with at least one
  row. The orchestrator tests whether any fetch returned a dataset
  (\<open>if indicator_data\<close>), not whether the dataset has rows: an indicator whose only
  observation has a value that is not a number gets its file, and the combined file is
  written too, both without a row.
\<close>


theorem zero_rows_written_counterexample:
  "w_writes (snd (fetch_all_indicators (unrate_env [observation ''2020-01-01'' ''.''])
                    ''api'' ''1990-01-01'' ''csv'' 1 demo_world))
   = [((''data'', ''unrate_data.csv''), ''csv'', [], None),
      ((''data'', ''all_economic_indicators.csv''), ''csv'', [], None)]"
  by code_simp

text \<open>
  C4, amended: in a supported format, processing a file calls the writer once, for the
  indicator's file and with the concatenation of the datasets fetched, when at least
  one call of \<open>fetch_series_data\<close> for its series returned a dataset, with or
  without rows, and calls no writer when every call returned \<open>None\<close>. A run ends with
  the call that writes \<open>all_economic_indicators\<close> if and only if the mapping it
  returns is not empty, which is the case if and only if some indicator's file was
  written.
\<close>

theorem persisted_when_fetched:
  assumes "format \<in> {''csv'', ''json'', ''parquet''}"
  shows "w_writes (snd (process_bruno_file env start format delay bf (all_data, s)))
           = w_writes s
             @ (case resolve_series env bf s of
                  ((name, ids), s1) \<Rightarrow>
                    if \<forall>r \<in> set (fetch_results env start delay ids s1). r = None then []
                    else [((w_data_dir s, clean_filename name @ ''.'' @ format), format,
                           concat (present (fetch_results env start delay ids s1)),
                           e_write env (w_data_dir s, clean_filename name @ ''.'' @ format) format)])
       \<and> (\<exists>per. w_writes (snd (fetch_all_indicators env dir start format delay s))
                   = w_writes s @ per
                     @ (if fst (fetch_all_indicators env dir start format delay s) = [] then []
                        else [((w_data_dir s, ''all_economic_indicators.'' @ format), format,
                               concat (map tag_indicator
                                         (fst (fetch_all_indicators env dir start format delay s))),
                               e_write env (w_data_dir s, ''all_economic_indicators.'' @ format)
                                 format)])
                \<and> (per = [] \<longleftrightarrow> fst (fetch_all_indicators env dir start format delay s) = []))"
proof
  obtain name ids s1 where r: "resolve_series env bf s = ((name, ids), s1)"
    by (metis prod.collapse)
  obtain dfs s2 where f: "fetch_each env start delay ids s1 = (dfs, s2)"
    by (cases "fetch_each env start delay ids s1")
  from resolve_series_frame [of env bf s] r
  have s1: "w_writes s1 = w_writes s" "w_data_dir s1 = w_data_dir s" by simp_all
  from fetch_each_frame [of env start delay ids s1] f s1
  have s2: "w_writes s2 = w_writes s" "w_data_dir s2 = w_data_dir s" by simp_all
  from fetch_each_results [of env start delay ids s1] f
  have dfs: "dfs = present (fetch_results env start delay ids s1)" by simp
  have "w_writes (snd (process_bruno_file env start format delay bf (all_data, s)))
          = w_writes s
            @ (if dfs = [] then []
               else [((w_data_dir s, clean_filename name @ ''.'' @ format), format, concat dfs,
                      e_write env (w_data_dir s, clean_filename name @ ''.'' @ format) format)])"
  proof (cases "dfs = []")
    case True
    then show ?thesis
      using process_bruno_file_eq [OF r f, of format all_data] s1 s2 by (simp add: logm_def)
  next
    case False
    then show ?thesis
      using process_bruno_file_eq [OF r f, of format all_data] s2
        save_data_supported(2) [OF assms, of env "concat dfs" "clean_filename name" s2]
      by simp
  qed
  then show "w_writes (snd (process_bruno_file env start format delay bf (all_data, s)))
           = w_writes s
             @ (case resolve_series env bf s of
                  ((name, ids), s1) \<Rightarrow>
                    if \<forall>r \<in> set (fetch_results env start delay ids s1). r = None then []
                    else [((w_data_dir s, clean_filename name @ ''.'' @ format), format,
                           concat (present (fetch_results env start delay ids s1)),
                           e_write env (w_data_dir s, clean_filename name @ ''.'' @ format) format)])"
    unfolding r dfs by (simp add: present_Nil)
next
  let ?run = "fetch_all_indicators env dir start format delay s"
  have "?run = (fst ?run, snd ?run)" by simp
  from run_writes [OF assms this] obtain per where
    w: "w_writes (snd ?run) = w_writes s @ per
            @ (if fst ?run = [] then []
               else [((w_data_dir s, ''all_economic_indicators.'' @ format), format,
                      concat (map tag_indicator (fst ?run)),
                      e_write env (w_data_dir s, ''all_economic_indicators.'' @ format) format)])"
    and n: "fst ` set per = (\<lambda>n. (w_data_dir s, clean_filename n @ ''.'' @ format)) ` fst ` set (fst ?run)"
    by blast
  from n have "set per = {} \<longleftrightarrow> set (fst ?run) = {}"
    by (metis image_is_empty)
  then have "per = [] \<longleftrightarrow> fst ?run = []" by simp
  with w show "\<exists>per. w_writes (snd ?run) = w_writes s @ per
            @ (if fst ?run = [] then []
               else [((w_data_dir s, ''all_economic_indicators.'' @ format), format,
                      concat (map tag_indicator (fst ?run)),
                      e_write env (w_data_dir s, ''all_economic_indicators.'' @ format) format)])
          \<and> (per = [] \<longleftrightarrow> fst ?run = [])"
    by blast
qed

theorem persisted_when_fetched_witness:
  "''csv'' \<in> {''csv'', ''json'', ''parquet''}
   \<and> fetch_results (unrate_env [observation ''2020-01-01'' ''.'']) ''1990-01-01'' 1 [''UNRATE'']
        (snd (resolve_series (unrate_env [observation ''2020-01-01'' ''.'']) (bru ''u'') demo_world))
     = [Some []]
   \<and> w_writes (snd (process_bruno_file (unrate_env [observation ''2020-01-01'' ''.''])
                      ''1990-01-01'' ''csv'' 1 (bru ''u'') ([], demo_world)))
     = [((''data'', ''unrate_data.csv''), ''csv'', [], None)]
   \<and> fetch_results (unrate_env []) ''1990-01-01'' 1 [''UNRATE'']
        (snd (resolve_series (unrate_env []) (bru ''u'') demo_world))
     = [None]
   \<and> w_writes (snd (process_bruno_file (unrate_env []) ''1990-01-01'' ''csv'' 1 (bru ''u'')
                      ([], demo_world)))
     = []"
proof -
  let ?dot = "unrate_env [observation ''2020-01-01'' ''.'']"
  let ?none = "unrate_env []"
  have h: "''csv'' \<in> {''csv'', ''json'', ''parquet''}" by simp
  have r1: "fst (resolve_series ?dot (bru ''u'') demo_world) = (''UNRATE data'', [''UNRATE''])"
    by code_simp
  have r2: "fst (resolve_series ?none (bru ''u'') demo_world) = (''UNRATE data'', [''UNRATE''])"
    by code_simp
  have f1: "fetch_results ?dot ''1990-01-01'' 1 [''UNRATE'']
              (snd (resolve_series ?dot (bru ''u'') demo_world)) = [Some []]"
    by code_simp
  have f2: "fetch_results ?none ''1990-01-01'' 1 [''UNRATE'']
              (snd (resolve_series ?none (bru ''u'') demo_world)) = [None]"
    by code_simp
  have cf: "clean_filename ''UNRATE data'' = ''unrate_data''" by code_simp
  have wr: "e_write ?dot (''data'', ''unrate_data.csv'') ''csv'' = None"
    by (simp add: unrate_env_def demo_env_def)
  have w0: "w_writes demo_world = []" "w_data_dir demo_world = ''data''"
    by (simp_all add: demo_world_def)
  from persisted_when_fetched [OF h, of ?dot "''1990-01-01''" 1 "bru ''u''" "[]" demo_world]
  have "w_writes (snd (process_bruno_file ?dot ''1990-01-01'' ''csv'' 1 (bru ''u'')
                            ([], demo_world)))
          = w_writes demo_world
            @ (case resolve_series ?dot (bru ''u'') demo_world of
                  ((name, ids), s1) \<Rightarrow>
                    if \<forall>r \<in> set (fetch_results ?dot ''1990-01-01'' 1 ids s1). r = None then []
                    else [((w_data_dir demo_world, clean_filename name @ ''.'' @ ''csv''), ''csv'',
                           concat (present (fetch_results ?dot ''1990-01-01'' 1 ids s1)),
                           e_write ?dot (w_data_dir demo_world, clean_filename name @ ''.'' @ ''csv'')
                             ''csv'')])"
    by (rule conjunct1)
  then have c1: "w_writes (snd (process_bruno_file ?dot ''1990-01-01'' ''csv'' 1 (bru ''u'')
                            ([], demo_world)))
            = [((''data'', ''unrate_data.csv''), ''csv'', [], None)]"
    unfolding case_prod_beta r1 fst_conv snd_conv f1 cf w0 by (simp add: wr)
  from persisted_when_fetched [OF h, of ?none "''1990-01-01''" 1 "bru ''u''" "[]" demo_world]
  have "w_writes (snd (process_bruno_file ?none ''1990-01-01'' ''csv'' 1 (bru ''u'')
                            ([], demo_world)))
          = w_writes demo_world
            @ (case resolve_series ?none (bru ''u'') demo_world of
                  ((name, ids), s1) \<Rightarrow>
                    if \<forall>r \<in> set (fetch_results ?none ''1990-01-01'' 1 ids s1). r = None then []
                    else [((w_data_dir demo_world, clean_filename name @ ''.'' @ ''csv''), ''csv'',
                           concat (present (fetch_results ?none ''1990-01-01'' 1 ids s1)),
                           e_write ?none (w_data_dir demo_world, clean_filename name @ ''.'' @ ''csv'')
                             ''csv'')])"
    by (rule conjunct1)
  then have c2: "w_writes (snd (process_bruno_file ?none ''1990-01-01'' ''csv'' 1 (bru ''u'')
                            ([], demo_world))) = []"
    unfolding case_prod_beta r2 fst_conv snd_conv f2 w0 by simp
  from h f1 c1 f2 c2 show ?thesis by (intro conjI)
qed

subsection \<open>The names of the files\<close>

lemma is_word_underscore: "is_word (CHR ''_'')"
  by (simp add: is_word_def)

lemma clean_filename_eq: "clean_filename n = sanitized_keeping_hyphen n"
  by (auto simp: clean_filename_def sanitized_keeping_hyphen_def is_word_underscore)

lemma of_char_lower_char:
  "of_char (lower_char c) = (45::nat) \<longleftrightarrow> of_char c = (45::nat)"
proof -
  have lt: "(of_char c :: nat) < 256" by simp
  show ?thesis
  proof (cases "lower_char c = c")
    case True
    then show ?thesis by simp
  next
    case False
    then have up: "(65 \<le> (of_char c :: nat) \<and> (of_char c :: nat) \<le> 90)
                 \<or> (192 \<le> (of_char c :: nat) \<and> (of_char c :: nat) \<le> 214)
                 \<or> (216 \<le> (of_char c :: nat) \<and> (of_char c :: nat) \<le> 222)"
      and lc: "lower_char c = char_of ((of_char c :: nat) + 32)"
      by (auto simp: lower_char_def Let_def split: if_splits)
    from up have "((of_char c :: nat) + 32) mod 256 = of_char c + 32" by auto
    then have "(of_char (lower_char c) :: nat) = of_char c + 32"
      by (simp add: lc)
    with up show ?thesis by auto
  qed
qed

lemma lower_char_hyphen: "lower_char c = CHR ''-'' \<longleftrightarrow> c = CHR ''-''"
proof -
  have h: "\<And>d. d = CHR ''-'' \<longleftrightarrow> (of_char d :: nat) = 45"
  proof -
    fix d
    have "(of_char (CHR ''-'') :: nat) = 45" by simp
    then show "d = CHR ''-'' \<longleftrightarrow> (of_char d :: nat) = 45"
      by (metis of_char_eq_iff)
  qed
  show ?thesis by (simp only: h of_char_lower_char)
qed

lemma sanitized_agree:
  "CHR ''-'' \<notin> set n \<Longrightarrow> sanitized_keeping_hyphen n = sanitized_spec n"
  by (auto simp: sanitized_keeping_hyphen_def sanitized_spec_def lower_def lower_char_hyphen)

text \<open>
  C5 as stated replaces every non-word character, a hyphen for one, by an underscore.
  The pattern of the module is \<open>[^\w\-_]\<close>, which spares the hyphen: the
  indicator \<open>x-y\<close> is written to \<open>x-y.csv\<close>, not to \<open>x_y.csv\<close>.
\<close>


theorem hyphen_kept_counterexample:
  "map (\<lambda>w. snd (fst w))
     (w_writes (snd (fetch_all_indicators hyphen_env ''api'' ''1990-01-01'' ''csv'' 1 demo_world)))
     = [''x-y.csv'', ''all_economic_indicators.csv'']
   \<and> sanitized_spec ''x-y'' @ ''.'' @ ''csv'' = ''x_y.csv''"
  by code_simp

text \<open>
  C5, amended: in a supported format, the files a run writes before the combined file
  are, for the indicators of the mapping it returns, named by the indicator name
  lower-cased, with every character that is neither a word character nor a hyphen
  replaced by an underscore, then a dot and the format. For a name without a hyphen
  that is the name the specification words.
\<close>


theorem indicator_file_names:
  assumes "format \<in> {''csv'', ''json'', ''parquet''}"
  shows "(\<exists>per. w_writes (snd (fetch_all_indicators env dir start format delay s))
                   = w_writes s @ per
                     @ (if fst (fetch_all_indicators env dir start format delay s) = [] then []
                        else [((w_data_dir s, ''all_economic_indicators.'' @ format), format,
                               concat (map tag_indicator
                                         (fst (fetch_all_indicators env dir start format delay s))),
                               e_write env (w_data_dir s, ''all_economic_indicators.'' @ format)
                                 format)])
                \<and> fst ` set per
                    = (\<lambda>n. (w_data_dir s, sanitized_keeping_hyphen n @ ''.'' @ format))
                        ` fst ` set (fst (fetch_all_indicators env dir start format delay s)))
       \<and> (\<forall>n. CHR ''-'' \<notin> set n \<longrightarrow> sanitized_keeping_hyphen n = sanitized_spec n)"
proof
  let ?run = "fetch_all_indicators env dir start format delay s"
  have "?run = (fst ?run, snd ?run)" by simp
  from run_writes [OF assms this]
  show "\<exists>per. w_writes (snd ?run) = w_writes s @ per
            @ (if fst ?run = [] then []
               else [((w_data_dir s, ''all_economic_indicators.'' @ format), format,
                      concat (map tag_indicator (fst ?run)),
                      e_write env (w_data_dir s, ''all_economic_indicators.'' @ format) format)])
          \<and> fst ` set per
              = (\<lambda>n. (w_data_dir s, sanitized_keeping_hyphen n @ ''.'' @ format)) ` fst ` set (fst ?run)"
    by (simp only: clean_filename_eq)
next
  show "\<forall>n. CHR ''-'' \<notin> set n \<longrightarrow> sanitized_keeping_hyphen n = sanitized_spec n"
    by (simp add: sanitized_agree)
qed

theorem indicator_file_names_witness:
  "''csv'' \<in> {''csv'', ''json'', ''parquet''}
   \<and> (\<exists>per. w_writes (snd (fetch_all_indicators hyphen_env ''api'' ''1990-01-01'' ''csv'' 1 demo_world))
              = per @ [((''data'', ''all_economic_indicators.csv''), ''csv'',
                        [\<lparr>r_date = Some 20200101, r_value = 5, r_series_id = ''ABC'',
                          r_fetched_at = 1, r_indicator = Some ''x-y''\<rparr>], None)]
            \<and> fst ` set per = {(''data'', ''x-y.csv'')})
   \<and> CHR ''-'' \<notin> set ''S&P 500 data''
   \<and> sanitized_keeping_hyphen ''S&P 500 data'' = sanitized_spec ''S&P 500 data''"
proof -
  let ?run = "fetch_all_indicators hyphen_env ''api'' ''1990-01-01'' ''csv'' 1 demo_world"
  have h: "''csv'' \<in> {''csv'', ''json'', ''parquet''}" by simp
  have res: "fst ?run = [(''x-y'', [\<lparr>r_date = Some 20200101, r_value = 5, r_series_id = ''ABC'',
                          r_fetched_at = 1, r_indicator = None\<rparr>])]"
    by code_simp
  have san: "sanitized_keeping_hyphen ''x-y'' = ''x-y''" by code_simp
  have wr: "e_write hyphen_env (''data'', ''all_economic_indicators.csv'') ''csv'' = None"
    by (simp add: hyphen_env_def demo_env_def)
  have w0: "w_writes demo_world = []" "w_data_dir demo_world = ''data''"
    by (simp_all add: demo_world_def)
  have nh: "CHR ''-'' \<notin> set ''S&P 500 data''" by simp
  note inst = indicator_file_names [OF h, of hyphen_env "''api''" "''1990-01-01''" 1 demo_world]
  from inst have
    "\<exists>per. w_writes (snd ?run)
              = per @ [((''data'', ''all_economic_indicators.csv''), ''csv'',
                        [\<lparr>r_date = Some 20200101, r_value = 5, r_series_id = ''ABC'',
                          r_fetched_at = 1, r_indicator = Some ''x-y''\<rparr>], None)]
            \<and> fst ` set per = {(''data'', ''x-y.csv'')}"
    by (simp add: res san wr w0 tag_indicator_def del: One_nat_def)
  moreover from inst nh
  have "sanitized_keeping_hyphen ''S&P 500 data'' = sanitized_spec ''S&P 500 data''"
    by blast
  ultimately show ?thesis using h nh by blast
qed

subsection \<open>The rows of a dataset\<close>

lemma dropna_filter:
  "map (\<lambda>p. (Inr (fst p), Some (snd p))) (dropna xs)
     = filter (\<lambda>p. snd p \<noteq> None) (map (\<lambda>p. (Inr (fst p), snd p)) xs)"
  by (induction xs rule: dropna.induct) auto

lemma clean_origin:
  assumes "argsort_ok (e_argsort env)" and "clean env obs = Inr rows" and "row \<in> set rows"
  shows "\<exists>ob \<in> set obs. to_numeric_cell env (cell_of ''value'' ob) = Some (snd row)
           \<and> to_datetime_cell env (cell_of ''date'' ob) = Inr (fst row)"
proof -
  let ?val = "\<lambda>ob. to_numeric_cell env (cell_of ''value'' ob)"
  let ?date = "\<lambda>ob. to_datetime_cell env (cell_of ''date'' ob)"
  from assms(1,2) obtain dates where
    ds: "map ?date obs = map Inr dates"
    and ms: "mset rows = mset (dropna (zip dates (map ?val obs)))"
    by (rule clean_Inr)
  from ds have len: "length dates = length obs"
    by (metis length_map)
  from assms(3) ms have "row \<in> set (dropna (zip dates (map ?val obs)))"
    by (metis set_mset_mset)
  then have "(fst row, Some (snd row)) \<in> set (zip dates (map ?val obs))"
    by (metis prod.collapse set_dropna)
  then obtain i where i: "i < length obs" "dates ! i = fst row" "?val (obs ! i) = Some (snd row)"
    using len by (auto simp: in_set_zip)
  from ds i(1) have "?date (obs ! i) = Inr (dates ! i)"
    by (metis len nth_map)
  with i show ?thesis by (metis nth_mem)
qed

lemma clean_exact:
  assumes "argsort_ok (e_argsort env)" and "clean env obs = Inr rows"
  shows "mset (map (\<lambda>p. (Inr (fst p), Some (snd p))) rows)
           = mset (filter (\<lambda>p. snd p \<noteq> None)
                     (map (\<lambda>ob. (to_datetime_cell env (cell_of ''date'' ob),
                                  to_numeric_cell env (cell_of ''value'' ob))) obs))"
proof -
  let ?val = "\<lambda>ob. to_numeric_cell env (cell_of ''value'' ob)"
  let ?date = "\<lambda>ob. to_datetime_cell env (cell_of ''date'' ob)"
  let ?f = "\<lambda>p :: int option \<times> 'a. (Inr (fst p) :: exn + int option, Some (snd p))"
  from assms obtain dates where
    ds: "map ?date obs = map Inr dates"
    and ms: "mset rows = mset (dropna (zip dates (map ?val obs)))"
    by (rule clean_Inr)
  have "map (\<lambda>p. (Inr (fst p) :: exn + int option, snd p)) (zip dates (map ?val obs))
          = zip (map Inr dates) (map ?val obs)"
    by (simp add: zip_map1 case_prod_beta)
  also have "\<dots> = zip (map ?date obs) (map ?val obs)"
    by (simp only: ds)
  also have "\<dots> = map (\<lambda>ob. (?date ob, ?val ob)) obs"
    by (simp add: zip_map_map zip_same_conv_map)
  finally have z: "map (\<lambda>p. (Inr (fst p) :: exn + int option, snd p)) (zip dates (map ?val obs))
          = map (\<lambda>ob. (?date ob, ?val ob)) obs" .
  have "mset (map ?f rows) = image_mset ?f (mset rows)" by simp
  also have "\<dots> = image_mset ?f (mset (dropna (zip dates (map ?val obs))))"
    by (simp only: ms)
  also have "\<dots> = mset (map ?f (dropna (zip dates (map ?val obs))))" by simp
  also have "\<dots> = mset (filter (\<lambda>p. snd p \<noteq> None)
                        (map (\<lambda>p. (Inr (fst p), snd p)) (zip dates (map ?val obs))))"
    by (simp only: dropna_filter)
  also have "\<dots> = mset (filter (\<lambda>p. snd p \<noteq> None) (map (\<lambda>ob. (?date ob, ?val ob)) obs))"
    by (simp only: z)
  finally show ?thesis .
qed

lemma fetch_rows_traceable:
  assumes "argsort_ok (e_argsort env)"
    and "fst (fetch_series_data env sid start None s) = Some df"
    and "r \<in> set df"
  shows "fetched_row env start r"
proof -
  from assms(2) obtain obs rows where
    rq: "fst (send_request env sid start None s) = Inr (Some obs)"
    and cl: "clean env obs = Inr rows"
    and df: "df = map (stamp sid (w_clock (snd (send_request env sid start None s)))) rows"
    by (rule fetch_Some)
  from assms(3) df obtain row where row: "row \<in> set rows"
    and r: "r = stamp sid (w_clock (snd (send_request env sid start None s))) row"
    by auto
  from clean_origin [OF assms(1) cl row] obtain ob where
    ob: "ob \<in> set obs" "to_numeric_cell env (cell_of ''value'' ob) = Some (snd row)"
      "to_datetime_cell env (cell_of ''date'' ob) = Inr (fst row)"
    by blast
  then have "row_of env sid ob r"
    by (simp add: row_of_def r stamp_def)
  with rq ob(1) show ?thesis
    unfolding fetched_row_def by blast
qed

lemma fetched_row_tag: "fetched_row env start (r\<lparr>r_indicator := x\<rparr>) = fetched_row env start r"
  by (simp add: fetched_row_def row_of_def)

lemma fetch_each_rows:
  assumes "argsort_ok (e_argsort env)"
  shows "\<forall>df \<in> set (fst (fetch_each env start delay ids s)). \<forall>r \<in> set df. fetched_row env start r"
proof (induction ids arbitrary: s)
  case Nil
  then show ?case by simp
next
  case (Cons sid ids)
  obtain df s1 where f: "fetch_series_data env sid start None s = (df, s1)"
    by (cases "fetch_series_data env sid start None s")
  obtain dfs s3 where e: "fetch_each env start delay ids (sleep delay s1) = (dfs, s3)"
    by (cases "fetch_each env start delay ids (sleep delay s1)")
  from Cons.IH [of "sleep delay s1"] e
  have rest: "\<forall>d \<in> set dfs. \<forall>r \<in> set d. fetched_row env start r" by simp
  show ?case
  proof (cases df)
    case None
    with f e rest show ?thesis by simp
  next
    case (Some d)
    with f have "fst (fetch_series_data env sid start None s) = Some d" by simp
    then have "\<forall>r \<in> set d. fetched_row env start r"
      using fetch_rows_traceable [OF assms] by blast
    with f e rest Some show ?thesis by simp
  qed
qed

lemma writes_ok_same: "w_writes s' = w_writes s \<Longrightarrow> writes_ok env start s s'"
  by (simp add: writes_ok_def)

lemma writes_ok_trans:
  assumes "writes_ok env start s s1" and "writes_ok env start s1 s2"
  shows "writes_ok env start s s2"
proof -
  from assms(1) obtain n1 where
    1: "w_writes s1 = w_writes s @ n1"
      "\<forall>w \<in> set n1. \<forall>r \<in> set (fst (snd (snd w))). fetched_row env start r"
    unfolding writes_ok_def by blast
  from assms(2) obtain n2 where
    2: "w_writes s2 = w_writes s1 @ n2"
      "\<forall>w \<in> set n2. \<forall>r \<in> set (fst (snd (snd w))). fetched_row env start r"
    unfolding writes_ok_def by blast
  from 1 2 have "w_writes s2 = w_writes s @ (n1 @ n2)
      \<and> (\<forall>w \<in> set (n1 @ n2). \<forall>r \<in> set (fst (snd (snd w))). fetched_row env start r)"
    by auto
  then show ?thesis unfolding writes_ok_def by (rule exI)
qed

lemma save_data_writes_ok:
  assumes "\<forall>r \<in> set data. fetched_row env start r"
  shows "writes_ok env start s (snd (save_data env data filename format s))"
proof -
  have "w_writes (snd (save_data env data filename format s)) = w_writes s
      \<or> w_writes (snd (save_data env data filename format s))
          = w_writes s @ [((w_data_dir s, filename @ ''.'' @ format), format, data,
                           e_write env (w_data_dir s, filename @ ''.'' @ format) format)]"
    by (auto simp: save_data_def save_data_try_def call_writer_def logm_def Let_def
             split: option.splits)
  then show ?thesis
  proof
    assume "w_writes (snd (save_data env data filename format s)) = w_writes s"
    then show ?thesis by (rule writes_ok_same)
  next
    let ?w = "((w_data_dir s, filename @ ''.'' @ format), format, data,
               e_write env (w_data_dir s, filename @ ''.'' @ format) format)"
    assume "w_writes (snd (save_data env data filename format s)) = w_writes s @ [?w]"
    with assms have "w_writes (snd (save_data env data filename format s)) = w_writes s @ [?w]
      \<and> (\<forall>w \<in> set [?w]. \<forall>r \<in> set (fst (snd (snd w))). fetched_row env start r)"
      by simp
    then show ?thesis unfolding writes_ok_def by (rule exI)
  qed
qed

lemma dict_set_member:
  "kv \<in> set (dict_set kvs k v) \<Longrightarrow> kv = (k, v) \<or> kv \<in> set kvs"
proof (induction kvs)
  case Nil
  then show ?case by simp
next
  case (Cons x kvs)
  obtain k' v' where x: "x = (k', v')" by (cases x)
  show ?case
  proof (cases "k' = k")
    case True
    with Cons.prems x show ?thesis by auto
  next
    case False
    with Cons x show ?thesis by auto
  qed
qed

lemma process_rows:
  assumes "argsort_ok (e_argsort env)"
    and "data_ok env start all_data"
    and "process_bruno_file env start format delay bf (all_data, s) = (all_data', s')"
  shows "data_ok env start all_data' \<and> writes_ok env start s s'"
proof -
  obtain name ids s1 where r: "resolve_series env bf s = ((name, ids), s1)"
    by (metis prod.collapse)
  obtain dfs s2 where f: "fetch_each env start delay ids s1 = (dfs, s2)"
    by (cases "fetch_each env start delay ids s1")
  from resolve_series_frame [of env bf s] r
  have s1: "w_writes s1 = w_writes s" by simp
  from fetch_each_frame [of env start delay ids s1] f s1
  have s2: "w_writes s2 = w_writes s" by simp
  from fetch_each_rows [OF assms(1), of start delay ids s1] f
  have rows: "\<forall>r \<in> set (concat dfs). fetched_row env start r" by auto
  show ?thesis
  proof (cases "dfs = []")
    case True
    with assms(3) process_bruno_file_eq [OF r f, of format all_data]
    have "all_data' = all_data" "w_writes s' = w_writes s"
      using s1 s2 by (auto simp: logm_def split: if_splits)
    with assms(2) show ?thesis by (simp add: writes_ok_same)
  next
    case False
    with assms(3) process_bruno_file_eq [OF r f, of format all_data]
    have a: "all_data' = dict_set all_data name (concat dfs)"
      and s': "s' = snd (save_data env (concat dfs) (clean_filename name) format s2)"
      by simp_all
    have "data_ok env start all_data'"
      unfolding data_ok_def a
    proof (intro ballI)
      fix kv r
      assume kv: "kv \<in> set (dict_set all_data name (concat dfs))" and r: "r \<in> set (snd kv)"
      from kv have "kv = (name, concat dfs) \<or> kv \<in> set all_data"
        by (rule dict_set_member)
      then show "fetched_row env start r"
      proof
        assume "kv = (name, concat dfs)"
        with r rows show ?thesis by auto
      next
        assume "kv \<in> set all_data"
        with r assms(2) show ?thesis by (auto simp: data_ok_def)
      qed
    qed
    moreover have "writes_ok env start s2 s'"
      unfolding s' using rows by (rule save_data_writes_ok)
    then have "writes_ok env start s s'"
      using writes_ok_same [of s2 s env start] s2 writes_ok_trans by blast
    ultimately show ?thesis by simp
  qed
qed

lemma fold_rows:
  assumes "argsort_ok (e_argsort env)"
  shows "data_ok env start all_data \<Longrightarrow>
         fold (process_bruno_file env start format delay) files (all_data, s) = (all_data', s')
     \<Longrightarrow> data_ok env start all_data' \<and> writes_ok env start s s'"
proof (induction files arbitrary: all_data s)
  case Nil
  then show ?case by (simp add: writes_ok_same)
next
  case (Cons bf files)
  obtain ad1 s1 where p: "process_bruno_file env start format delay bf (all_data, s) = (ad1, s1)"
    by (cases "process_bruno_file env start format delay bf (all_data, s)")
  with Cons.prems(2)
  have rest: "fold (process_bruno_file env start format delay) files (ad1, s1) = (all_data', s')"
    by simp
  from process_rows [OF assms Cons.prems(1) p]
  have 1: "data_ok env start ad1" "writes_ok env start s s1" by simp_all
  from Cons.IH [OF 1(1) rest]
  have 2: "data_ok env start all_data'" "writes_ok env start s1 s'" by simp_all
  from 1(2) 2(2) have "writes_ok env start s s'" by (rule writes_ok_trans)
  with 2(1) show ?case by simp
qed

lemma run_rows:
  assumes "argsort_ok (e_argsort env)"
  shows "writes_ok env start s (snd (fetch_all_indicators env dir start format delay s))"
proof (cases "e_glob env dir")
  case None
  then have "w_writes (snd (fetch_all_indicators env dir start format delay s)) = w_writes s"
    by (simp add: fetch_all_indicators_def logm_def)
  then show ?thesis by (rule writes_ok_same)
next
  case (Some files)
  let ?s0 = "logm INFO (Found_files (length files)) s"
  obtain ad s1 where f: "fold (process_bruno_file env start format delay) files ([], ?s0) = (ad, s1)"
    by (cases "fold (process_bruno_file env start format delay) files ([], ?s0)")
  have "data_ok env start []" by (simp add: data_ok_def)
  from fold_rows [OF assms this f]
  have d: "data_ok env start ad" and w: "writes_ok env start ?s0 s1" by simp_all
  have "writes_ok env start s ?s0" by (rule writes_ok_same) (simp add: logm_def)
  with w have w1: "writes_ok env start s s1" using writes_ok_trans by blast
  show ?thesis
  proof (cases "ad = []")
    case True
    with Some f have "snd (fetch_all_indicators env dir start format delay s)
                        = logm INFO (Completed (length ad)) s1"
      by (auto simp: fetch_all_indicators_def Let_def)
    then have "w_writes (snd (fetch_all_indicators env dir start format delay s)) = w_writes s1"
      by (simp add: logm_def)
    then have "writes_ok env start s1 (snd (fetch_all_indicators env dir start format delay s))"
      by (rule writes_ok_same)
    with w1 show ?thesis by (rule writes_ok_trans)
  next
    case False
    let ?s2 = "logm INFO Creating_combined s1"
    let ?s3 = "snd (save_data env (concat (map tag_indicator ad)) ''all_economic_indicators''
                      format ?s2)"
    from Some f False
    have fin: "snd (fetch_all_indicators env dir start format delay s)
                 = logm INFO (Completed (length ad)) ?s3"
      by (auto simp: fetch_all_indicators_def Let_def)
    have "\<forall>r \<in> set (concat (map tag_indicator ad)). fetched_row env start r"
      using d by (auto simp: data_ok_def tag_indicator_def fetched_row_tag)
    then have "writes_ok env start ?s2 ?s3" by (rule save_data_writes_ok)
    moreover have "writes_ok env start s1 ?s2" by (rule writes_ok_same) (simp add: logm_def)
    moreover have "writes_ok env start ?s3 (logm INFO (Completed (length ad)) ?s3)"
      by (rule writes_ok_same) (simp add: logm_def)
    ultimately have "writes_ok env start s (logm INFO (Completed (length ad)) ?s3)"
      using w1 writes_ok_trans by blast
    with fin show ?thesis by simp
  qed
qed

text \<open>
  C7 as stated promises a date in every persisted row. Cleaning drops the rows without
  a value only (\<open>dropna(subset=['value'])\<close>), and \<open>pd.to_datetime\<close> turns a
  missing date into \<open>NaT\<close> without raising: an observation with a value and a null
  date is written to the indicator's file and to the combined file with no date.
\<close>


theorem null_date_persisted_counterexample:
  "map (\<lambda>w. map r_date (fst (snd (snd w))))
     (w_writes (snd (fetch_all_indicators
        (demo_env [(bru ''u'', ''name: UNRATE data'')]
                  [(''UNRATE'', [[(''date'', Null), (''value'', Str ''7'')]])] argsort_stable)
        ''api'' ''1990-01-01'' ''csv'' 1 demo_world)))
   = [[None], [None]]"
  by code_simp

text \<open>
  C7, amended: the dataset that \<open>fetch_series_data\<close> returns holds exactly the
  observations whose value converts to a number, each once: its rows, read as pairs of
  a date and a value, are the conversions of those observations, and every row carries
  the series identifier of the call. Every row of every dataset that a run of
  \<open>fetch_all_indicators\<close> writes, to an indicator's file or to the combined file,
  stems from an observation returned to a request of the module: it carries the series
  identifier of that request, the number the observation's value converts to, and the
  date the observation's date converts to, which is null exactly when that conversion
  gives \<open>NaT\<close>.
\<close>

theorem cleaned_rows:
  assumes "argsort_ok (e_argsort env)"
  shows "(\<forall>obs df. fst (send_request env sid start end s) = Inr (Some obs)
            \<and> fst (fetch_series_data env sid start end s) = Some df
          \<longrightarrow> (\<forall>r \<in> set df. r_series_id r = sid)
            \<and> mset (map (\<lambda>r. (Inr (r_date r), Some (r_value r))) df)
                = mset (filter (\<lambda>p. snd p \<noteq> None)
                          (map (\<lambda>ob. (to_datetime_cell env (cell_of ''date'' ob),
                                       to_numeric_cell env (cell_of ''value'' ob))) obs)))
       \<and> (\<forall>w \<in> set (drop (length (w_writes s'))
                      (w_writes (snd (fetch_all_indicators env dir start' format delay s')))).
            \<forall>r \<in> set (fst (snd (snd w))).
              \<exists>series_id s0 observations ob.
                 fst (send_request env series_id start' None s0) = Inr (Some observations)
               \<and> ob \<in> set observations
               \<and> r_series_id r = series_id
               \<and> to_numeric_cell env (cell_of ''value'' ob) = Some (r_value r)
               \<and> to_datetime_cell env (cell_of ''date'' ob) = Inr (r_date r))"
proof (intro conjI allI impI)
  fix obs df
  assume h: "fst (send_request env sid start end s) = Inr (Some obs)
            \<and> fst (fetch_series_data env sid start end s) = Some df"
  then obtain obs' rows where
    rq: "fst (send_request env sid start end s) = Inr (Some obs')"
    and cl: "clean env obs' = Inr rows"
    and df: "df = map (stamp sid (w_clock (snd (send_request env sid start end s)))) rows"
    by (blast elim: fetch_Some)
  from rq h have same: "obs' = obs" by simp
  show "\<forall>r \<in> set df. r_series_id r = sid"
    by (auto simp: df stamp_def)
  have "map (\<lambda>r. (Inr (r_date r) :: exn + int option, Some (r_value r))) df
          = map (\<lambda>p. (Inr (fst p), Some (snd p))) rows"
    by (simp add: df stamp_def comp_def)
  then show "mset (map (\<lambda>r. (Inr (r_date r), Some (r_value r))) df)
                = mset (filter (\<lambda>p. snd p \<noteq> None)
                          (map (\<lambda>ob. (to_datetime_cell env (cell_of ''date'' ob),
                                       to_numeric_cell env (cell_of ''value'' ob))) obs))"
    using clean_exact [OF assms cl] same by simp
next
  let ?run = "fetch_all_indicators env dir start' format delay s'"
  from run_rows [OF assms, of start' s' dir format delay] obtain new where
    w: "w_writes (snd ?run) = w_writes s' @ new"
    and ok: "\<forall>w \<in> set new. \<forall>r \<in> set (fst (snd (snd w))). fetched_row env start' r"
    unfolding writes_ok_def by blast
  from w have "drop (length (w_writes s')) (w_writes (snd ?run)) = new" by simp
  with ok show "\<forall>w \<in> set (drop (length (w_writes s')) (w_writes (snd ?run))).
            \<forall>r \<in> set (fst (snd (snd w))).
              \<exists>series_id s0 observations ob.
                 fst (send_request env series_id start' None s0) = Inr (Some observations)
               \<and> ob \<in> set observations
               \<and> r_series_id r = series_id
               \<and> to_numeric_cell env (cell_of ''value'' ob) = Some (r_value r)
               \<and> to_datetime_cell env (cell_of ''date'' ob) = Inr (r_date r)"
    by (simp add: fetched_row_def row_of_def)
qed

lemma run_unrate_seven:
  "w_writes (snd (fetch_all_indicators (unrate_env [observation ''2020-01-01'' ''7''])
                    ''api'' ''1990-01-01'' ''csv'' 1 demo_world))
   = [((''data'', ''unrate_data.csv''), ''csv'',
       [\<lparr>r_date = Some 20200101, r_value = 7, r_series_id = ''UNRATE'', r_fetched_at = 1,
         r_indicator = None\<rparr>], None),
      ((''data'', ''all_economic_indicators.csv''), ''csv'',
       [\<lparr>r_date = Some 20200101, r_value = 7, r_series_id = ''UNRATE'', r_fetched_at = 1,
         r_indicator = Some ''UNRATE data''\<rparr>], None)]"
  by code_simp

theorem cleaned_rows_witness:
  "argsort_ok (e_argsort (gdp_env three_obs argsort_stable))
   \<and> fst (send_request (gdp_env three_obs argsort_stable) ''GDP'' ''1990-01-01'' None demo_world)
     = Inr (Some three_obs)
   \<and> fst (fetch_series_data (gdp_env three_obs argsort_stable) ''GDP'' ''1990-01-01'' None demo_world)
     = Some [\<lparr>r_date = Some 20200201, r_value = 2, r_series_id = ''GDP'', r_fetched_at = 1,
              r_indicator = None\<rparr>,
             \<lparr>r_date = Some 20200301, r_value = 3, r_series_id = ''GDP'', r_fetched_at = 1,
              r_indicator = None\<rparr>]
   \<and> mset [(Inr (Some 20200201), Some 2), (Inr (Some 20200301), Some 3)]
     = mset (filter (\<lambda>p. snd p \<noteq> None)
               (map (\<lambda>ob. (to_datetime_cell (gdp_env three_obs argsort_stable) (cell_of ''date'' ob),
                            to_numeric_cell (gdp_env three_obs argsort_stable) (cell_of ''value'' ob)))
                  three_obs))
   \<and> (\<exists>series_id s0 observations ob.
         fst (send_request (unrate_env [observation ''2020-01-01'' ''7'']) series_id
                ''1990-01-01'' None s0) = Inr (Some observations)
       \<and> ob \<in> set observations
       \<and> series_id = ''UNRATE''
       \<and> to_numeric_cell (unrate_env [observation ''2020-01-01'' ''7'']) (cell_of ''value'' ob)
           = Some 7
       \<and> to_datetime_cell (unrate_env [observation ''2020-01-01'' ''7'']) (cell_of ''date'' ob)
           = Inr (Some 20200101))"
proof -
  let ?env = "gdp_env three_obs argsort_stable"
  let ?seven = "unrate_env [observation ''2020-01-01'' ''7'']"
  let ?r2 = "\<lparr>r_date = Some 20200201, r_value = 2::int, r_series_id = ''GDP'', r_fetched_at = 1,
              r_indicator = None\<rparr>"
  let ?r3 = "\<lparr>r_date = Some 20200301, r_value = 3::int, r_series_id = ''GDP'', r_fetched_at = 1,
              r_indicator = None\<rparr>"
  let ?r7 = "\<lparr>r_date = Some 20200101, r_value = 7::int, r_series_id = ''UNRATE'', r_fetched_at = 1,
              r_indicator = None\<rparr>"
  have ok: "argsort_ok (e_argsort ?env)"
    by (simp add: e_argsort_gdp_env argsort_ok_stable)
  have ok7: "argsort_ok (e_argsort ?seven)"
    by (simp add: unrate_env_def demo_env_def argsort_ok_stable)
  have rq: "fst (send_request ?env ''GDP'' ''1990-01-01'' None demo_world) = Inr (Some three_obs)"
    by (simp add: request_three_obs)
  have res: "fst (fetch_series_data ?env ''GDP'' ''1990-01-01'' None demo_world) = Some [?r2, ?r3]"
    by (simp add: fetch_three_obs)
  from cleaned_rows [OF ok, of "''GDP''" "''1990-01-01''" None demo_world] rq res
  have "mset (map (\<lambda>r. (Inr (r_date r) :: exn + int option, Some (r_value r))) [?r2, ?r3])
          = mset (filter (\<lambda>p. snd p \<noteq> None)
               (map (\<lambda>ob. (to_datetime_cell ?env (cell_of ''date'' ob),
                            to_numeric_cell ?env (cell_of ''value'' ob))) three_obs))"
    by blast
  then have c1: "mset [(Inr (Some 20200201) :: exn + int option, Some (2::int)),
                       (Inr (Some 20200301), Some 3)]
          = mset (filter (\<lambda>p. snd p \<noteq> None)
               (map (\<lambda>ob. (to_datetime_cell ?env (cell_of ''date'' ob),
                            to_numeric_cell ?env (cell_of ''value'' ob))) three_obs))"
    by simp
  have w0: "w_writes demo_world = []" by (simp add: demo_world_def)
  from cleaned_rows [OF ok7, of _ _ _ _ demo_world "''api''" "''1990-01-01''" "''csv''" 1]
  have "\<forall>w \<in> set (drop (length (w_writes demo_world))
                      (w_writes (snd (fetch_all_indicators ?seven ''api'' ''1990-01-01'' ''csv'' 1
                                        demo_world)))).
            \<forall>r \<in> set (fst (snd (snd w))).
              \<exists>series_id s0 observations ob.
                 fst (send_request ?seven series_id ''1990-01-01'' None s0) = Inr (Some observations)
               \<and> ob \<in> set observations
               \<and> r_series_id r = series_id
               \<and> to_numeric_cell ?seven (cell_of ''value'' ob) = Some (r_value r)
               \<and> to_datetime_cell ?seven (cell_of ''date'' ob) = Inr (r_date r)"
    by (rule conjunct2)
  then have c2: "\<exists>series_id s0 observations ob.
         fst (send_request ?seven series_id ''1990-01-01'' None s0) = Inr (Some observations)
       \<and> ob \<in> set observations
       \<and> series_id = ''UNRATE''
       \<and> to_numeric_cell ?seven (cell_of ''value'' ob) = Some 7
       \<and> to_datetime_cell ?seven (cell_of ''date'' ob) = Inr (Some 20200101)"
    unfolding run_unrate_seven w0 by (auto simp del: One_nat_def)
  from ok rq res c1 c2 show ?thesis by (intro conjI)
qed

end
